theory Spec2Isabelle
  imports Complex_Main
begin

section \<open>Errors and arrays\<close>

text \<open>
  Python exceptions are values of \<open>error\<close>; a function that may raise returns
  \<open>error + 'a\<close> with \<open>Inl\<close> for the exception. A two-dimensional array is the list
  of its rows; a one-dimensional array is a list.
\<close>

datatype error = ValueError string | IndexError | AssertionError | KeyError

type_synonym 'a matrix = "'a list list"

section \<open>compute\_np.py: batched pairwise statistic\<close>

text \<open>
  \<open>feats[ix]\<close> with an integer array \<open>ix\<close>: every index \<open>i\<close> must lie in
  \<open>[-N, N)\<close>, a negative one counts from the end, anything else raises IndexError.
\<close>

definition normalize_index :: "nat \<Rightarrow> int \<Rightarrow> error + nat" where
  "normalize_index n i =
     (if 0 \<le> i \<and> i < int n then Inr (nat i)
      else if - int n \<le> i \<and> i < 0 then Inr (nat (i + int n))
      else Inl IndexError)"

fun fancy_index :: "'a matrix \<Rightarrow> int list \<Rightarrow> error + 'a matrix" where
  "fancy_index feats [] = Inr []"
| "fancy_index feats (i # ix) =
     (case normalize_index (length feats) i of
        Inl e \<Rightarrow> Inl e
      | Inr k \<Rightarrow>
          (case fancy_index feats ix of
             Inl e \<Rightarrow> Inl e
           | Inr rows \<Rightarrow> Inr (feats ! k # rows)))"

text \<open>
  The body of the loop of \<open>pairwise_indexed\<close> at offset \<open>i\<close>: the slice
  \<open>pair_ix[i:i + batch_size]\<close>, its two columns gathered from \<open>feats\<close>, and the
  scoring function applied to the two batches. The scoring function is any callable: it
  may raise, and it may return an array of any length.
\<close>

definition batch_step ::
  "'a matrix \<Rightarrow> (int \<times> int) list \<Rightarrow> ('a matrix \<Rightarrow> 'a matrix \<Rightarrow> error + 's list) \<Rightarrow>
   nat \<Rightarrow> nat \<Rightarrow> error + 's list" where
  "batch_step feats pair_ix batch_pairwise_op batch_size i =
     (case fancy_index feats (map fst (take batch_size (drop i pair_ix))) of
        Inl e \<Rightarrow> Inl e
      | Inr x_sample \<Rightarrow>
          (case fancy_index feats (map snd (take batch_size (drop i pair_ix))) of
             Inl e \<Rightarrow> Inl e
           | Inr y_sample \<Rightarrow> batch_pairwise_op x_sample y_sample))"

text \<open>
  The loop \<open>for i in range(0, num_pairs, batch_size)\<close> for a positive step, with the
  list \<open>corrs\<close> of the batches scored so far.
\<close>

function batch_loop ::
  "'a matrix \<Rightarrow> (int \<times> int) list \<Rightarrow> ('a matrix \<Rightarrow> 'a matrix \<Rightarrow> error + 's list) \<Rightarrow>
   nat \<Rightarrow> nat \<Rightarrow> 's list list \<Rightarrow> error + 's list list" where
  "batch_loop feats pair_ix batch_pairwise_op batch_size i corrs =
     (if batch_size = 0 \<or> length pair_ix \<le> i then Inr corrs
      else
        (case batch_step feats pair_ix batch_pairwise_op batch_size i of
           Inl e \<Rightarrow> Inl e
         | Inr corr \<Rightarrow>
             batch_loop feats pair_ix batch_pairwise_op batch_size (i + batch_size)
               (corrs @ [corr])))"
  by pat_completeness auto
termination
  by (relation "measure (\<lambda>(feats, pair_ix, batch_pairwise_op, batch_size, i, corrs).
        length pair_ix - i)") auto

declare batch_loop.simps [simp del]

text \<open>
  \<open>pairwise_indexed\<close>. \<open>range\<close> raises ValueError for a zero step and is empty for a
  negative one; \<open>np.concatenate\<close> raises ValueError for an empty list of arrays; the
  final \<open>assert\<close> raises AssertionError.
\<close>

definition pairwise_indexed ::
  "'a matrix \<Rightarrow> (int \<times> int) list \<Rightarrow> ('a matrix \<Rightarrow> 'a matrix \<Rightarrow> error + 's list) \<Rightarrow>
   int \<Rightarrow> error + 's list" where
  "pairwise_indexed feats pair_ix batch_pairwise_op batch_size =
     (let num_pairs = length pair_ix in
      if batch_size = 0 then Inl (ValueError ''range() arg 3 must not be zero'')
      else
        (case (if batch_size < 0 then Inr []
               else batch_loop feats pair_ix batch_pairwise_op (nat batch_size) 0 []) of
           Inl e \<Rightarrow> Inl e
         | Inr corrs \<Rightarrow>
             if corrs = [] then Inl (ValueError ''need at least one array to concatenate'')
             else
               (let corrs' = concat corrs in
                if length corrs' = num_pairs then Inr corrs' else Inl AssertionError)))"

text \<open>The direct computation: one score per pair, in the order of the pairs.\<close>

fun per_pair_scores ::
  "'a matrix \<Rightarrow> ('a list \<Rightarrow> 'a list \<Rightarrow> 's) \<Rightarrow> (int \<times> int) list \<Rightarrow> error + 's list" where
  "per_pair_scores feats f [] = Inr []"
| "per_pair_scores feats f (p # ps) =
     (case normalize_index (length feats) (fst p) of
        Inl e \<Rightarrow> Inl e
      | Inr a \<Rightarrow>
          (case normalize_index (length feats) (snd p) of
             Inl e \<Rightarrow> Inl e
           | Inr b \<Rightarrow>
               (case per_pair_scores feats f ps of
                  Inl e \<Rightarrow> Inl e
                | Inr r \<Rightarrow> Inr (f (feats ! a) (feats ! b) # r))))"

text \<open>
  Vocabulary of the statements about \<open>pairwise_indexed\<close>: the indices numpy accepts
  for an array of \<open>n\<close> rows, the row an accepted index selects, and what it means for a
  batch scoring function to be row-wise on the rows of \<open>feats\<close>: on two batches of equally
  many rows of \<open>feats\<close> it returns, without raising, the array whose \<open>k\<close>-th entry is
  one fixed function \<open>f\<close> of the two \<open>k\<close>-th rows.
\<close>

definition valid_index :: "nat \<Rightarrow> int \<Rightarrow> bool" where
  "valid_index n i = (- int n \<le> i \<and> i < int n)"

definition row_of :: "nat \<Rightarrow> int \<Rightarrow> nat" where
  "row_of n i = (if 0 \<le> i then nat i else nat (i + int n))"

definition rowwise_on ::
  "'a matrix \<Rightarrow> ('a matrix \<Rightarrow> 'a matrix \<Rightarrow> error + 's list) \<Rightarrow>
   ('a list \<Rightarrow> 'a list \<Rightarrow> 's) \<Rightarrow> bool" where
  "rowwise_on feats op f =
     (\<forall>x y. length x = length y \<and> set x \<subseteq> set feats \<and> set y \<subseteq> set feats \<longrightarrow>
        op x y = Inr (map2 f x y))"

text \<open>A concrete row-wise scoring function for the examples: the dot product of two rows.\<close>

definition dot :: "int list \<Rightarrow> int list \<Rightarrow> int" where
  "dot r s = sum_list (map2 (*) r s)"

definition pairwise_dot :: "int matrix \<Rightarrow> int matrix \<Rightarrow> error + int list" where
  "pairwise_dot x_sample y_sample = Inr (map2 dot x_sample y_sample)"

section \<open>compute\_np.py: the two scoring functions\<close>

text \<open>
  An entry of an array is a float64 value: a finite real, an infinity or NaN (the two
  zeros of IEEE 754 are one value here, and so are all NaNs). An arithmetic operation of
  numpy is the exact operation on the reals followed by a rounding into the format, with
  the rules of IEEE 754 for the infinities and NaN; a division by zero is no exception,
  it yields NaN for \<open>0 / 0\<close> and an infinity otherwise. The rounding \<open>rnd\<close> is a
  parameter of the operations.
\<close>

datatype npfloat = Fin real | PInf | NInf | NaN

fun fl_neg :: "npfloat \<Rightarrow> npfloat" where
  "fl_neg (Fin a) = Fin (- a)"
| "fl_neg PInf = NInf"
| "fl_neg NInf = PInf"
| "fl_neg NaN = NaN"

fun fl_add :: "(real \<Rightarrow> npfloat) \<Rightarrow> npfloat \<Rightarrow> npfloat \<Rightarrow> npfloat" where
  "fl_add rnd NaN _ = NaN"
| "fl_add rnd _ NaN = NaN"
| "fl_add rnd (Fin a) (Fin b) = rnd (a + b)"
| "fl_add rnd PInf NInf = NaN"
| "fl_add rnd NInf PInf = NaN"
| "fl_add rnd PInf _ = PInf"
| "fl_add rnd _ PInf = PInf"
| "fl_add rnd NInf _ = NInf"
| "fl_add rnd _ NInf = NInf"

definition fl_sub :: "(real \<Rightarrow> npfloat) \<Rightarrow> npfloat \<Rightarrow> npfloat \<Rightarrow> npfloat" where
  "fl_sub rnd a b = fl_add rnd a (fl_neg b)"

fun fl_mul :: "(real \<Rightarrow> npfloat) \<Rightarrow> npfloat \<Rightarrow> npfloat \<Rightarrow> npfloat" where
  "fl_mul rnd NaN _ = NaN"
| "fl_mul rnd _ NaN = NaN"
| "fl_mul rnd (Fin a) (Fin b) = rnd (a * b)"
| "fl_mul rnd (Fin a) PInf = (if a = 0 then NaN else if 0 < a then PInf else NInf)"
| "fl_mul rnd (Fin a) NInf = (if a = 0 then NaN else if 0 < a then NInf else PInf)"
| "fl_mul rnd PInf (Fin b) = (if b = 0 then NaN else if 0 < b then PInf else NInf)"
| "fl_mul rnd NInf (Fin b) = (if b = 0 then NaN else if 0 < b then NInf else PInf)"
| "fl_mul rnd PInf PInf = PInf"
| "fl_mul rnd PInf NInf = NInf"
| "fl_mul rnd NInf PInf = NInf"
| "fl_mul rnd NInf NInf = PInf"

fun fl_div :: "(real \<Rightarrow> npfloat) \<Rightarrow> npfloat \<Rightarrow> npfloat \<Rightarrow> npfloat" where
  "fl_div rnd NaN _ = NaN"
| "fl_div rnd _ NaN = NaN"
| "fl_div rnd (Fin a) (Fin b) =
     (if b \<noteq> 0 then rnd (a / b)
      else if a = 0 then NaN
      else if 0 < a then PInf else NInf)"
| "fl_div rnd (Fin a) _ = Fin 0"
| "fl_div rnd PInf (Fin b) = (if b < 0 then NInf else PInf)"
| "fl_div rnd NInf (Fin b) = (if b < 0 then PInf else NInf)"
| "fl_div rnd _ _ = NaN"

fun fl_sqrt :: "(real \<Rightarrow> npfloat) \<Rightarrow> npfloat \<Rightarrow> npfloat" where
  "fl_sqrt rnd (Fin a) = (if a < 0 then NaN else rnd (sqrt a))"
| "fl_sqrt rnd PInf = PInf"
| "fl_sqrt rnd NInf = NaN"
| "fl_sqrt rnd NaN = NaN"

text \<open>
  The numerics \<open>pairwise_corr\<close> runs on, neither being code of this repository: the
  rounding of the float format, and \<open>np.add.reduce\<close>, the sum of the entries of a row
  in the order numpy adds them.
\<close>

record numerics =
  rounding :: "real \<Rightarrow> npfloat"
  add_reduce :: "npfloat list \<Rightarrow> npfloat"

text \<open>
  \<open>mean(axis=1)\<close> of one row: numpy divides \<open>np.add.reduce\<close> of the row by the count
  of its entries.
\<close>

definition np_mean :: "numerics \<Rightarrow> npfloat list \<Rightarrow> npfloat" where
  "np_mean N r = fl_div (rounding N) (add_reduce N r) (rounding N (real (length r)))"

text \<open>
  Both scoring functions are documented for two arrays of the same shape, and every
  statement below assumes it. For other shapes numpy broadcasts an operand with a single
  row or column and raises ValueError otherwise; the model reports the ValueError for
  every mismatch.
\<close>

definition same_shape :: "'a matrix \<Rightarrow> 'b matrix \<Rightarrow> bool" where
  "same_shape x y = (map length x = map length y)"

text \<open>
  \<open>pairwise_corr\<close>, line by line. \<open>x_center**2\<close> is numpy's square, the product of
  each entry with itself.
\<close>

definition pairwise_corr :: "numerics \<Rightarrow> npfloat matrix \<Rightarrow> npfloat matrix \<Rightarrow> error + npfloat list" where
  "pairwise_corr N x_sample y_sample =
     (if \<not> same_shape x_sample y_sample
      then Inl (ValueError ''operands could not be broadcast together'')
      else
        (let x_mean = map (np_mean N) x_sample;
             y_mean = map (np_mean N) y_sample;
             x_center = map2 (\<lambda>r m. map (\<lambda>v. fl_sub (rounding N) v m) r) x_sample x_mean;
             y_center = map2 (\<lambda>r m. map (\<lambda>v. fl_sub (rounding N) v m) r) y_sample y_mean;
             numer = map (add_reduce N) (map2 (map2 (fl_mul (rounding N))) x_center y_center);
             denom = map2 (fl_mul (rounding N))
                       (map (\<lambda>r. add_reduce N (map (\<lambda>v. fl_mul (rounding N) v v) r)) x_center)
                       (map (\<lambda>r. add_reduce N (map (\<lambda>v. fl_mul (rounding N) v v) r)) y_center);
             denom = map (fl_sqrt (rounding N)) denom;
             corrs = map2 (fl_div (rounding N)) numer denom
         in Inr corrs))"

text \<open>
  The score \<open>pairwise_corr\<close> computes for one pair of rows, read off the source: the
  rows are centred on their means, and the dot product of the centred rows is divided by
  the root of the product of their two sums of squares.
\<close>

definition centered :: "numerics \<Rightarrow> npfloat list \<Rightarrow> npfloat list" where
  "centered N r = map (\<lambda>v. fl_sub (rounding N) v (np_mean N r)) r"

definition sum_squares :: "numerics \<Rightarrow> npfloat list \<Rightarrow> npfloat" where
  "sum_squares N r = add_reduce N (map (\<lambda>v. fl_mul (rounding N) v v) r)"

definition dot_rows :: "numerics \<Rightarrow> npfloat list \<Rightarrow> npfloat list \<Rightarrow> npfloat" where
  "dot_rows N r s = add_reduce N (map2 (fl_mul (rounding N)) r s)"

definition corr_row :: "numerics \<Rightarrow> npfloat list \<Rightarrow> npfloat list \<Rightarrow> npfloat" where
  "corr_row N r s =
     fl_div (rounding N) (dot_rows N (centered N r) (centered N s))
       (fl_sqrt (rounding N)
          (fl_mul (rounding N) (sum_squares N (centered N r)) (sum_squares N (centered N s))))"

text \<open>
  The Pearson correlation of two rows as the specification words it, in the same
  numerics: the dot product of the centred rows divided by the product of their two L2
  norms.
\<close>

definition pearson :: "numerics \<Rightarrow> npfloat list \<Rightarrow> npfloat list \<Rightarrow> npfloat" where
  "pearson N r s =
     fl_div (rounding N) (dot_rows N (centered N r) (centered N s))
       (fl_mul (rounding N) (fl_sqrt (rounding N) (sum_squares N (centered N r)))
                            (fl_sqrt (rounding N) (sum_squares N (centered N s))))"

text \<open>
  Two numerics. \<open>exact\<close> does not round. \<open>float64\<close> rounds to the nearest value of
  binary64, ties to the even significand: the unit in the last place of \<open>x\<close> is
  \<open>2 ^ ulp_exp x\<close> (53 significant bits, gradual underflow below \<open>2 ^ - 1022\<close>), and a
  result of magnitude \<open>2 ^ 1024\<close> or more is an infinity. Both add the entries of a row
  from left to right, as numpy does for a row of fewer than eight entries; a longer row
  numpy adds in blocks, which only the parameter \<open>add_reduce\<close> covers.
\<close>

definition seq_sum :: "(real \<Rightarrow> npfloat) \<Rightarrow> npfloat list \<Rightarrow> npfloat" where
  "seq_sum rnd r = foldl (fl_add rnd) (Fin 0) r"

definition exact :: numerics where
  "exact = \<lparr>rounding = Fin, add_reduce = seq_sum Fin\<rparr>"

definition pow2 :: "int \<Rightarrow> real" where
  "pow2 e = (if 0 \<le> e then 2 ^ nat e else 1 / 2 ^ nat (- e))"

definition ulp_exp :: "real \<Rightarrow> int" where
  "ulp_exp x = max (\<lfloor>log 2 \<bar>x\<bar>\<rfloor> - 52) (- 1074)"

definition round_half_even :: "real \<Rightarrow> int" where
  "round_half_even q =
     (let f = \<lfloor>q\<rfloor> in
      if q - of_int f < 1 / 2 then f
      else if 1 / 2 < q - of_int f then f + 1
      else if even f then f else f + 1)"

definition rnd64 :: "real \<Rightarrow> npfloat" where
  "rnd64 x =
     (if x = 0 then Fin 0
      else
        (let u = ulp_exp x;
             r = of_int (round_half_even (x / pow2 u)) * pow2 u
         in if 2 ^ 1024 \<le> r then PInf
            else if r \<le> - (2 ^ 1024) then NInf
            else Fin r))"

definition float64 :: numerics where
  "float64 = \<lparr>rounding = rnd64, add_reduce = seq_sum rnd64\<rparr>"

text \<open>
  \<open>pairwise_cosine\<close> is modelled on finite entries in exact arithmetic, the arithmetic
  its scaling property is stated in: the entries are reals, and what numpy's division
  does beyond the reals is kept.
\<close>

definition np_divide :: "real \<Rightarrow> real \<Rightarrow> npfloat" where
  "np_divide a b =
     (if b \<noteq> 0 then Fin (a / b)
      else if a = 0 then NaN
      else if 0 < a then PInf else NInf)"

fun np_multiply :: "npfloat \<Rightarrow> npfloat \<Rightarrow> npfloat" where
  "np_multiply NaN _ = NaN"
| "np_multiply _ NaN = NaN"
| "np_multiply (Fin a) (Fin b) = Fin (a * b)"
| "np_multiply (Fin a) PInf = (if a = 0 then NaN else if 0 < a then PInf else NInf)"
| "np_multiply (Fin a) NInf = (if a = 0 then NaN else if 0 < a then NInf else PInf)"
| "np_multiply PInf (Fin b) = (if b = 0 then NaN else if 0 < b then PInf else NInf)"
| "np_multiply NInf (Fin b) = (if b = 0 then NaN else if 0 < b then NInf else PInf)"
| "np_multiply PInf PInf = PInf"
| "np_multiply PInf NInf = NInf"
| "np_multiply NInf PInf = NInf"
| "np_multiply NInf NInf = PInf"

fun np_add :: "npfloat \<Rightarrow> npfloat \<Rightarrow> npfloat" where
  "np_add NaN _ = NaN"
| "np_add _ NaN = NaN"
| "np_add (Fin a) (Fin b) = Fin (a + b)"
| "np_add PInf NInf = NaN"
| "np_add NInf PInf = NaN"
| "np_add PInf _ = PInf"
| "np_add _ PInf = PInf"
| "np_add NInf _ = NInf"
| "np_add _ NInf = NInf"

definition np_sum :: "npfloat list \<Rightarrow> npfloat" where
  "np_sum r = foldl np_add (Fin 0) r"

definition norm_axis1 :: "real matrix \<Rightarrow> real list" where
  "norm_axis1 x = map (\<lambda>r. sqrt (sum_list (map (\<lambda>v. v\<^sup>2) r))) x"

definition pairwise_cosine :: "real matrix \<Rightarrow> real matrix \<Rightarrow> error + npfloat list" where
  "pairwise_cosine x_sample y_sample =
     (if \<not> same_shape x_sample y_sample
      then Inl (ValueError ''operands could not be broadcast together'')
      else
        (let x_norm = map2 (\<lambda>r n. map (\<lambda>v. np_divide v n) r) x_sample (norm_axis1 x_sample);
             y_norm = map2 (\<lambda>r n. map (\<lambda>v. np_divide v n) r) y_sample (norm_axis1 y_sample);
             c_dist = map np_sum (map2 (map2 np_multiply) x_norm y_norm)
         in Inr c_dist))"

definition l2_norm :: "real list \<Rightarrow> real" where
  "l2_norm r = sqrt (sum_list (map (\<lambda>v. v\<^sup>2) r))"

definition cosine_row :: "real list \<Rightarrow> real list \<Rightarrow> npfloat" where
  "cosine_row r s =
     np_sum (map2 np_multiply (map (\<lambda>v. np_divide v (l2_norm r)) r)
                              (map (\<lambda>v. np_divide v (l2_norm s)) s))"

text \<open>
  Vocabulary of the statements: the array \<open>c \<cdot> x\<close>; an array of finite entries; a row
  whose entries are all the same finite value (zero variance); that the computed mean of
  a row is its first entry; an array whose rows all have the same length; and the
  numerics in which zero is rounded to zero and a sum of zeros, or of zeros and NaNs, is
  zero, or zero or NaN.
\<close>

definition scale :: "real \<Rightarrow> real matrix \<Rightarrow> real matrix" where
  "scale c x = map (map (\<lambda>v. c * v)) x"

fun is_fin :: "npfloat \<Rightarrow> bool" where
  "is_fin (Fin a) = True"
| "is_fin v = False"

definition finite_rows :: "npfloat matrix \<Rightarrow> bool" where
  "finite_rows x = list_all (list_all is_fin) x"

fun constant_row :: "npfloat list \<Rightarrow> bool" where
  "constant_row [] = True"
| "constant_row (v # vs) = (is_fin v \<and> list_all (\<lambda>w. w = v) vs)"

fun mean_is_exact :: "numerics \<Rightarrow> npfloat list \<Rightarrow> bool" where
  "mean_is_exact N [] = True"
| "mean_is_exact N (v # vs) = (np_mean N (v # vs) = v)"

definition zero_safe :: "numerics \<Rightarrow> bool" where
  "zero_safe N =
     (rounding N 0 = Fin 0 \<and>
      (\<forall>xs. list_all (\<lambda>v. v = Fin 0) xs \<longrightarrow> add_reduce N xs = Fin 0) \<and>
      (\<forall>xs. list_all (\<lambda>v. v = Fin 0 \<or> v = NaN) xs \<longrightarrow>
         add_reduce N xs = Fin 0 \<or> add_reduce N xs = NaN))"

fun rectangular :: "'a matrix \<Rightarrow> bool" where
  "rectangular [] = True"
| "rectangular (r # rs) = list_all (\<lambda>s. length s = length r) rs"

text \<open>
  Two rows for the examples: the float64 value nearest to \<open>0.1\<close>, three times, and a
  row of large powers of two.
\<close>

definition tenth :: real where
  "tenth = 3602879701896397 / 2 ^ 55"

definition tenth_row :: "npfloat list" where
  "tenth_row = [Fin tenth, Fin tenth, Fin tenth]"

definition big_row :: "npfloat list" where
  "big_row = [Fin (- (2 ^ 300)), Fin (- (2 ^ 300)), Fin (2 ^ 300), Fin (2 ^ 300)]"

section \<open>The sampler: data model\<close>

text \<open>
  The module \<open>copairs/sampler.py\<close> that the tests import is not among the sources; its
  definitions below are modelled from the specification, each marked as such. A dataset
  is the list of its rows, a row id is the position of the row, and a row maps a column
  name to its cell, \<open>None\<close> for a missing value (NaN).
\<close>

type_synonym 'v row = "string \<Rightarrow> 'v option"

type_synonym 'v dataset = "'v row list"

text \<open>
  Modelled from the spec: the Column Index of \<open>sampler.py\<close> (sections 3 and 4.1), the
  mapping from each value of a column to the row ids carrying it, built once for a
  column. Missing cells carry no value and are in no bucket (section 4.3).
\<close>

definition column_values :: "'v dataset \<Rightarrow> string \<Rightarrow> 'v list" where
  "column_values ds col = remdups (List.map_filter (\<lambda>r. r col) ds)"

text \<open>Modelled from the spec: the inverted index of one column of \<open>sampler.py\<close>.\<close>

definition column_index :: "'v dataset \<Rightarrow> string \<Rightarrow> ('v \<times> nat list) list" where
  "column_index ds col =
     map (\<lambda>v. (v, filter (\<lambda>i. (ds ! i) col = Some v) [0..<length ds])) (column_values ds col)"

text \<open>Modelled from the spec: the lookup of a value in the Column Index of \<open>sampler.py\<close>.\<close>

definition bucket :: "'v dataset \<Rightarrow> string \<Rightarrow> 'v \<Rightarrow> nat list" where
  "bucket ds col v = (case map_of (column_index ds col) v of None \<Rightarrow> [] | Some ids \<Rightarrow> ids)"

text \<open>
  Modelled from the spec: the random generator instance owned by the Sampler of
  \<open>sampler.py\<close> (sections 3 and 9). The stream of raw draws that the seed determines is
  a parameter; the cursor advances with every draw.
\<close>

record rng_state =
  draws :: "nat \<Rightarrow> nat"
  cursor :: nat

text \<open>
  Modelled from the spec: a uniform choice from a non-empty list by the generator of
  \<open>sampler.py\<close>. The callers below choose from non-empty lists only.
\<close>

definition rng_choice :: "rng_state \<Rightarrow> 'a list \<Rightarrow> 'a \<times> rng_state" where
  "rng_choice g xs = (xs ! (draws g (cursor g) mod length xs), g\<lparr>cursor := Suc (cursor g)\<rparr>)"

text \<open>
  Modelled from the spec: the Sampler State of \<open>sampler.py\<close> (section 3): the dataset
  its Column Indexes are built from, the seed, and the generator.
\<close>

record 'v sampler =
  dframe :: "'v dataset"
  seed :: nat
  rng :: rng_state

section \<open>The sampler: get\_all\_pairs\<close>

text \<open>
  Modelled from the spec: the Group Key of a row in \<open>sampler.py\<close> (section 3), the tuple
  of its groupby values; a row with a missing groupby cell has none.
\<close>

fun key_of :: "'v row \<Rightarrow> string list \<Rightarrow> 'v list option" where
  "key_of r [] = Some []"
| "key_of r (c # cs) =
     (case r c of
        None \<Rightarrow> None
      | Some v \<Rightarrow> (case key_of r cs of None \<Rightarrow> None | Some k \<Rightarrow> Some (v # k)))"

text \<open>Modelled from the spec: the group keys \<open>sampler.py\<close> partitions the rows by.\<close>

definition group_keys :: "'v dataset \<Rightarrow> string list \<Rightarrow> 'v list list" where
  "group_keys ds groupby = remdups (List.map_filter (\<lambda>r. key_of r groupby) ds)"

text \<open>
  Modelled from the spec: the partition of a group key in \<open>sampler.py\<close> (section 4.2),
  the intersection across the groupby columns of the buckets of the key's values; with
  no groupby column it is every row.
\<close>

fun group_rows :: "'v dataset \<Rightarrow> string list \<Rightarrow> 'v list \<Rightarrow> nat list" where
  "group_rows ds (c # cs) (v # vs) =
     filter (\<lambda>i. i \<in> set (bucket ds c v)) (group_rows ds cs vs)"
| "group_rows ds cs vs = [0..<length ds]"

text \<open>
  Modelled from the spec: the pairs of distinct rows of a partition in \<open>sampler.py\<close>,
  canonical with the smaller id first (section 3).
\<close>

definition all_pairs :: "nat list \<Rightarrow> (nat \<times> nat) list" where
  "all_pairs rows = concat (map (\<lambda>i. map (Pair i) (filter (\<lambda>j. i < j) rows)) rows)"

text \<open>
  Modelled from the spec: the pairs of a partition that share the value of one diffby
  column (section 4.2 of the spec of \<open>sampler.py\<close>), from that column's index scoped to
  the partition.
\<close>

definition same_value_pairs :: "'v dataset \<Rightarrow> string \<Rightarrow> nat list \<Rightarrow> (nat \<times> nat) list" where
  "same_value_pairs ds col rows =
     concat (map (\<lambda>v. all_pairs (filter (\<lambda>i. i \<in> set (bucket ds col v)) rows))
                 (column_values ds col))"

text \<open>
  Modelled from the spec: the valid pairs of a partition in \<open>sampler.py\<close> (section
  4.2): all its pairs minus the union, over the diffby columns, of the same-value pairs.
\<close>

definition valid_pairs :: "'v dataset \<Rightarrow> string list \<Rightarrow> nat list \<Rightarrow> (nat \<times> nat) list" where
  "valid_pairs ds diffby rows =
     filter (\<lambda>p. p \<notin> set (concat (map (\<lambda>col. same_value_pairs ds col rows) diffby)))
       (all_pairs rows)"

text \<open>
  Modelled from the spec: \<open>Sampler.get_all_pairs\<close> of \<open>sampler.py\<close> (sections 4.2, 6
  and 7). Overlapping groupby and diffby raise the configuration error first; otherwise
  the result maps each group key that has a valid pair to its pairs, and a key without
  one is absent.
\<close>

definition get_all_pairs ::
  "'v sampler \<Rightarrow> string list \<Rightarrow> string list \<Rightarrow> error + ('v list \<times> (nat \<times> nat) list) list" where
  "get_all_pairs s groupby diffby =
     (if set groupby \<inter> set diffby \<noteq> {}
      then Inl (ValueError ''groupby and diffby must be disjoint lists'')
      else Inr (filter (\<lambda>kp. snd kp \<noteq> [])
             (map (\<lambda>k. (k, valid_pairs (dframe s) diffby (group_rows (dframe s) groupby k)))
                  (group_keys (dframe s) groupby))))"



section \<open>The sampler: sample\_null\_pair\<close>

text \<open>
  Modelled from the spec: the choice of two distinct values of one column in
  \<open>sample_null_pair\<close> of \<open>sampler.py\<close> (section 4.3), the second from the values left
  without the first.
\<close>

definition pick_two :: "rng_state \<Rightarrow> 'v list \<Rightarrow> ('v \<times> 'v) \<times> rng_state" where
  "pick_two g vals =
     (let (a, g1) = rng_choice g vals;
          (b, g2) = rng_choice g1 (removeAll a vals)
      in ((a, b), g2))"

text \<open>
  Modelled from the spec: two distinct values for every requested column, column by
  column, in \<open>sample_null_pair\<close> of \<open>sampler.py\<close>.
\<close>

fun pick_values :: "'v dataset \<Rightarrow> rng_state \<Rightarrow> string list \<Rightarrow> ('v \<times> 'v) list \<times> rng_state" where
  "pick_values ds g [] = ([], g)"
| "pick_values ds g (c # cs) =
     (let (p, g1) = pick_two g (column_values ds c);
          (ps, g2) = pick_values ds g1 cs
      in (p # ps, g2))"

text \<open>
  Modelled from the spec: the bounded retry loop of \<open>sample_null_pair\<close> of
  \<open>sampler.py\<close> (section 4.3). One attempt chooses the values, intersects across the
  columns the buckets of the first values and of the second values, and draws one row id
  from each intersection; an empty intersection or twice the same row id is a wasted
  draw. The bound is a parameter, the specification leaving it open (section 9); when it
  is used up the operation fails.
\<close>

fun draw_loop ::
  "nat \<Rightarrow> 'v dataset \<Rightarrow> string list \<Rightarrow> rng_state \<Rightarrow> (error + nat \<times> nat) \<times> rng_state" where
  "draw_loop 0 ds cols g = (Inl (ValueError ''no valid null pair found''), g)"
| "draw_loop (Suc n) ds cols g =
     (let (vs, g1) = pick_values ds g cols;
          pool1 = group_rows ds cols (map fst vs);
          pool2 = group_rows ds cols (map snd vs)
      in if pool1 = [] \<or> pool2 = [] then draw_loop n ds cols g1
         else
           (let (id1, g2) = rng_choice g1 pool1;
                (id2, g3) = rng_choice g2 pool2
            in if id1 \<noteq> id2 then (Inr (id1, id2), g3) else draw_loop n ds cols g3))"

text \<open>
  Modelled from the spec: \<open>Sampler.sample_null_pair\<close> of \<open>sampler.py\<close> (sections 4.3,
  6 and 7). A column with fewer than two distinct values makes it fail at once; the
  sampler is returned with its generator advanced.
\<close>

definition sample_null_pair ::
  "'v sampler \<Rightarrow> nat \<Rightarrow> string list \<Rightarrow> (error + nat \<times> nat) \<times> 'v sampler" where
  "sample_null_pair s max_tries diffby_cols =
     (if list_ex (\<lambda>c. length (column_values (dframe s) c) < 2) diffby_cols
      then (Inl (ValueError ''fewer than two distinct values in a column''), s)
      else
        (let (r, g) = draw_loop max_tries (dframe s) diffby_cols (rng s)
         in (r, s\<lparr>rng := g\<rparr>)))"

text \<open>
  The candidate pool of a draw, in the words of the specification: the rows with no
  missing value in any requested column.
\<close>

definition candidate_pool :: "'v dataset \<Rightarrow> string list \<Rightarrow> nat list" where
  "candidate_pool ds cols =
     filter (\<lambda>i. list_all (\<lambda>c. (ds ! i) c \<noteq> None) cols) [0..<length ds]"

section \<open>tests/test\_sampler.py: the naive reference\<close>

text \<open>
  The comparisons of pandas on cells: a missing value equals nothing, itself included,
  and \<open>!=\<close> is the negation of \<open>==\<close>.
\<close>

definition pd_eq :: "'v option \<Rightarrow> 'v option \<Rightarrow> bool" where
  "pd_eq a b = (case a of None \<Rightarrow> False | Some v \<Rightarrow> b = Some v)"

definition pd_ne :: "'v option \<Rightarrow> 'v option \<Rightarrow> bool" where
  "pd_ne a b = (\<not> pd_eq a b)"

text \<open>
  \<open>get_naive_pairs\<close>: the mask \<open>index\<close> over the cross product of the rows with
  themselves, built column by column from \<open>True\<close>, here at one row \<open>p\<close> of the cross
  product.
\<close>

definition naive_index :: "'v dataset \<Rightarrow> string list \<Rightarrow> string list \<Rightarrow> nat \<times> nat \<Rightarrow> bool" where
  "naive_index ds groupby diffby p =
     foldl (\<lambda>index col. pd_ne ((ds ! fst p) col) ((ds ! snd p) col) \<and> index)
       (foldl (\<lambda>index col. pd_eq ((ds ! fst p) col) ((ds ! snd p) col) \<and> index) True groupby)
       diffby"

text \<open>
  \<open>get_naive_pairs\<close>. The cross product holds every ordered pair of rows, a row with
  itself included, in the order of the final sort. With no column at all \<open>index\<close> stays
  the scalar \<open>True\<close>, which \<open>cross.loc\<close> rejects with KeyError.
\<close>

definition get_naive_pairs ::
  "'v dataset \<Rightarrow> string list \<Rightarrow> string list \<Rightarrow> error + (nat \<times> nat) list" where
  "get_naive_pairs ds groupby diffby =
     (let cross = List.product [0..<length ds] [0..<length ds] in
      if groupby = [] \<and> diffby = [] then Inl KeyError
      else Inr (filter (naive_index ds groupby diffby) cross))"

text \<open>
  \<open>check_naive\<close>: both pair lists become sets of frozensets of row ids, and the
  assertion compares the two sets. \<open>flatten\<close> is \<open>sum(vals.values(), [])\<close>.
\<close>

definition pair_set :: "(nat \<times> nat) list \<Rightarrow> nat set set" where
  "pair_set ps = (\<lambda>p. {fst p, snd p}) ` set ps"

definition flatten :: "('k \<times> 'p list) list \<Rightarrow> 'p list" where
  "flatten vals = concat (map snd vals)"

definition check_naive ::
  "'v dataset \<Rightarrow> 'v sampler \<Rightarrow> string list \<Rightarrow> string list \<Rightarrow> error + unit" where
  "check_naive ds s groupby diffby =
     (case get_naive_pairs ds groupby diffby of
        Inl e \<Rightarrow> Inl e
      | Inr gt_pairs \<Rightarrow>
          (case get_all_pairs s groupby diffby of
             Inl e \<Rightarrow> Inl e
           | Inr vals \<Rightarrow>
               if pair_set gt_pairs = pair_set (flatten vals) then Inr ()
               else Inl AssertionError))"

text \<open>
  Vocabulary of the statements: two rows agree on a list of columns when their cells are
  equal and not missing in each, and differ on it when their cells are not equal in each
  (\<open>assert_groupby_diffby\<close> of the tests checks the same two conditions).
\<close>

definition agree :: "'v dataset \<Rightarrow> string list \<Rightarrow> nat \<Rightarrow> nat \<Rightarrow> bool" where
  "agree ds cols i j = list_all (\<lambda>col. pd_eq ((ds ! i) col) ((ds ! j) col)) cols"

definition differ :: "'v dataset \<Rightarrow> string list \<Rightarrow> nat \<Rightarrow> nat \<Rightarrow> bool" where
  "differ ds cols i j = list_all (\<lambda>col. pd_ne ((ds ! i) col) ((ds ! j) col)) cols"

text \<open>
  The pair set the enumerator is specified to return: the unordered pairs of distinct
  row ids that agree on every groupby column and differ on every diffby column.
\<close>

definition matching :: "'v dataset \<Rightarrow> string list \<Rightarrow> string list \<Rightarrow> nat set set" where
  "matching ds groupby diffby =
     {{i, j} | i j. i < length ds \<and> j < length ds \<and> i \<noteq> j \<and>
        agree ds groupby i j \<and> differ ds diffby i j}"

text \<open>A small dataset for the examples, with the columns of the tests.\<close>

definition mk_row :: "nat \<Rightarrow> nat \<Rightarrow> nat \<Rightarrow> nat row" where
  "mk_row c p w = map_of [(''c'', c), (''p'', p), (''w'', w)]"

definition example_dframe :: "nat dataset" where
  "example_dframe = [mk_row 1 1 1, mk_row 1 2 2, mk_row 1 1 2, mk_row 2 1 1]"

definition example_sampler :: "nat sampler" where
  "example_sampler =
     \<lparr>dframe = example_dframe, seed = 0, rng = \<lparr>draws = (\<lambda>n. n), cursor = 0\<rparr>\<rparr>"

definition single_dframe :: "nat dataset" where
  "single_dframe = [mk_row 1 1 1]"

definition single_sampler :: "nat sampler" where
  "single_sampler =
     \<lparr>dframe = single_dframe, seed = 0, rng = \<lparr>draws = (\<lambda>n. n), cursor = 0\<rparr>\<rparr>"

section \<open>Properties of pairwise\_indexed\<close>

lemma batch_loop_empty: "batch_loop feats [] op bs 0 [] = Inr []"
  by (simp add: batch_loop.simps)

lemma normalize_index_eq:
  "normalize_index n i = (if valid_index n i then Inr (row_of n i) else Inl IndexError)"
  by (auto simp: normalize_index_def valid_index_def row_of_def)

lemma row_of_less: "valid_index n i \<Longrightarrow> row_of n i < n"
  by (auto simp: valid_index_def row_of_def)

lemma fancy_index_eq:
  "fancy_index feats ix =
     (if list_all (valid_index (length feats)) ix
      then Inr (map (\<lambda>i. feats ! row_of (length feats) i) ix) else Inl IndexError)"
  by (induction ix) (auto simp: normalize_index_eq)

lemma per_pair_scores_eq:
  "per_pair_scores feats f ps =
     (if list_all (valid_index (length feats)) (map fst ps) \<and>
         list_all (valid_index (length feats)) (map snd ps)
      then Inr (map (\<lambda>p. f (feats ! row_of (length feats) (fst p))
                            (feats ! row_of (length feats) (snd p))) ps)
      else Inl IndexError)"
  by (induction ps) (auto simp: normalize_index_eq)

lemma map2_map_map: "map2 f (map g xs) (map h xs) = map (\<lambda>x. f (g x) (h x)) xs"
  by (induction xs) auto

lemma batch_step_rowwise:
  assumes "rowwise_on feats op f"
  shows "batch_step feats pair_ix op bs i = per_pair_scores feats f (take bs (drop i pair_ix))"
proof -
  let ?qs = "take bs (drop i pair_ix)"
  let ?n = "length feats"
  show ?thesis
  proof (cases "list_all (valid_index ?n) (map fst ?qs) \<and> list_all (valid_index ?n) (map snd ?qs)")
    case True
    let ?x = "map (\<lambda>i. feats ! row_of ?n i) (map fst ?qs)"
    let ?y = "map (\<lambda>i. feats ! row_of ?n i) (map snd ?qs)"
    have sx: "set ?x \<subseteq> set feats" using True
      by (auto simp: list_all_iff dest!: row_of_less)
    have sy: "set ?y \<subseteq> set feats" using True
      by (auto simp: list_all_iff dest!: row_of_less)
    have "op ?x ?y = Inr (map2 f ?x ?y)"
      using assms sx sy unfolding rowwise_on_def by (metis length_map)
    then show ?thesis using True
      by (simp add: batch_step_def fancy_index_eq per_pair_scores_eq map2_map_map o_def)
  next
    case False
    then show ?thesis
      by (auto simp: batch_step_def fancy_index_eq per_pair_scores_eq)
  qed
qed

lemma per_pair_scores_append:
  "per_pair_scores feats f (ps @ qs) =
     (case per_pair_scores feats f ps of
        Inl e \<Rightarrow> Inl e
      | Inr r \<Rightarrow> (case per_pair_scores feats f qs of Inl e \<Rightarrow> Inl IndexError | Inr s \<Rightarrow> Inr (r @ s)))"
  by (auto simp: per_pair_scores_eq)

lemma per_pair_scores_error: "per_pair_scores feats f ps = Inl e \<Longrightarrow> e = IndexError"
  by (auto simp: per_pair_scores_eq split: if_splits)

lemma batch_loop_rowwise:
  assumes rw: "rowwise_on feats op f" and bs: "0 < bs"
  shows "case per_pair_scores feats f (drop i pair_ix) of
           Inl e \<Rightarrow> batch_loop feats pair_ix op bs i corrs = Inl e
         | Inr r \<Rightarrow>
             (\<exists>cs. batch_loop feats pair_ix op bs i corrs = Inr cs \<and>
                   concat cs = concat corrs @ r \<and>
                   (cs = [] \<longrightarrow> corrs = [] \<and> length pair_ix \<le> i))"
  using rw bs
proof (induction feats pair_ix op bs i corrs rule: batch_loop.induct)
  case (1 feats pair_ix op bs i corrs)
  show ?case
  proof (cases "length pair_ix \<le> i")
    case True
    then show ?thesis
      by (simp add: batch_loop.simps [of feats pair_ix op bs i corrs])
  next
    case False
    have split: "drop i pair_ix = take bs (drop i pair_ix) @ drop (i + bs) pair_ix"
      by (metis append_take_drop_id drop_drop add.commute)
    have step: "batch_step feats pair_ix op bs i =
        per_pair_scores feats f (take bs (drop i pair_ix))"
      using "1.prems"(1) by (rule batch_step_rowwise)
    have whole: "per_pair_scores feats f (drop i pair_ix) =
       (case per_pair_scores feats f (take bs (drop i pair_ix)) of
          Inl e \<Rightarrow> Inl e
        | Inr r \<Rightarrow>
            (case per_pair_scores feats f (drop (i + bs) pair_ix) of
               Inl e \<Rightarrow> Inl IndexError
             | Inr s \<Rightarrow> Inr (r @ s)))"
      using per_pair_scores_append [of feats f "take bs (drop i pair_ix)" "drop (i + bs) pair_ix"]
        split by simp
    show ?thesis
    proof (cases "per_pair_scores feats f (take bs (drop i pair_ix))")
      case (Inl e)
      then show ?thesis using False "1.prems"(2) step whole
        by (simp add: batch_loop.simps [of feats pair_ix op bs i corrs])
    next
      case (Inr corr)
      have unfold: "batch_loop feats pair_ix op bs i corrs =
          batch_loop feats pair_ix op bs (i + bs) (corrs @ [corr])"
        using False "1.prems"(2) step Inr
        by (simp add: batch_loop.simps [of feats pair_ix op bs i corrs])
      have IH: "case per_pair_scores feats f (drop (i + bs) pair_ix) of
           Inl e \<Rightarrow> batch_loop feats pair_ix op bs (i + bs) (corrs @ [corr]) = Inl e
         | Inr r \<Rightarrow>
             (\<exists>cs. batch_loop feats pair_ix op bs (i + bs) (corrs @ [corr]) = Inr cs \<and>
                   concat cs = concat (corrs @ [corr]) @ r \<and>
                   (cs = [] \<longrightarrow> corrs @ [corr] = [] \<and> length pair_ix \<le> i + bs))"
        using "1.IH" [of corr] False "1.prems" step Inr by simp
      show ?thesis
      proof (cases "per_pair_scores feats f (drop (i + bs) pair_ix)")
        case (Inl e)
        then have "e = IndexError" by (rule per_pair_scores_error)
        then show ?thesis using IH Inl Inr whole unfold by simp
      next
        case (Inr s)
        then show ?thesis using IH \<open>per_pair_scores feats f (take bs (drop i pair_ix)) = Inr corr\<close>
            whole unfold by auto
      qed
    qed
  qed
qed

lemma pairwise_indexed_rowwise:
  assumes rw: "rowwise_on feats op f" and bs: "0 < bs" and ne: "pair_ix \<noteq> []"
  shows "pairwise_indexed feats pair_ix op bs = per_pair_scores feats f pair_ix"
proof -
  have L: "case per_pair_scores feats f pair_ix of
           Inl e \<Rightarrow> batch_loop feats pair_ix op (nat bs) 0 [] = Inl e
         | Inr r \<Rightarrow>
             (\<exists>cs. batch_loop feats pair_ix op (nat bs) 0 [] = Inr cs \<and>
                   concat cs = r \<and> cs \<noteq> [])"
    using batch_loop_rowwise [OF rw, where bs = "nat bs" and i = 0 and pair_ix = pair_ix and corrs = "[]"] bs ne
    by (auto split: sum.splits)
  show ?thesis
  proof (cases "per_pair_scores feats f pair_ix")
    case (Inl e)
    then show ?thesis using L bs by (simp add: pairwise_indexed_def)
  next
    case (Inr r)
    then have "length r = length pair_ix"
      by (auto simp: per_pair_scores_eq split: if_splits)
    then show ?thesis using L Inr bs by (auto simp: pairwise_indexed_def)
  qed
qed

lemma rowwise_on_pairwise_dot: "rowwise_on feats pairwise_dot dot"
  by (simp add: rowwise_on_def pairwise_dot_def)

text \<open>
  C8: with an empty pair-index array the call fails for every feature matrix, scoring
  function and batch size: \<open>range\<close> rejects a zero step, and otherwise no batch is
  scored and the concatenation of the empty list of batches raises ValueError.
\<close>

theorem pairwise_indexed_empty_fails:
  "pairwise_indexed feats [] op bs =
     Inl (ValueError (if bs = 0 then ''range() arg 3 must not be zero''
                      else ''need at least one array to concatenate''))"
  by (simp add: pairwise_indexed_def batch_loop_empty)

theorem pairwise_indexed_empty_fails_witness:
  "pairwise_indexed [[1, 2], [3, 4]] [] pairwise_dot 3 =
     Inl (ValueError ''need at least one array to concatenate'')"
  using pairwise_indexed_empty_fails [of "[[1, 2], [3, 4]]" pairwise_dot 3] by simp

text \<open>
  C5: for a scoring function that is row-wise on the rows of the feature matrix and a
  positive batch size, the batched computation refines the direct per-pair computation:
  for a non-empty pair array the two agree, on the scores and on the failure (an index
  out of range); whatever sequence \<open>pairwise_indexed\<close> returns is the per-pair sequence,
  its \<open>k\<close>-th entry being the score of the two rows the \<open>k\<close>-th pair selects; and the
  outcome is the same for every positive batch size.
\<close>

theorem pairwise_indexed_refines_per_pair:
  assumes rw: "rowwise_on feats op f" and bs: "0 < bs"
  shows "(pair_ix \<noteq> [] \<longrightarrow>
            pairwise_indexed feats pair_ix op bs = per_pair_scores feats f pair_ix) \<and>
         (\<forall>r. pairwise_indexed feats pair_ix op bs = Inr r \<longrightarrow>
            per_pair_scores feats f pair_ix = Inr r \<and>
            (\<forall>k < length pair_ix.
               r ! k = f (feats ! row_of (length feats) (fst (pair_ix ! k)))
                         (feats ! row_of (length feats) (snd (pair_ix ! k))))) \<and>
         (\<forall>bs'. 0 < bs' \<longrightarrow>
            pairwise_indexed feats pair_ix op bs' = pairwise_indexed feats pair_ix op bs)"
proof (intro conjI allI impI)
  assume "pair_ix \<noteq> []"
  then show "pairwise_indexed feats pair_ix op bs = per_pair_scores feats f pair_ix"
    using rw bs by (rule pairwise_indexed_rowwise [rotated 2])
next
  fix r
  assume r: "pairwise_indexed feats pair_ix op bs = Inr r"
  then have "pair_ix \<noteq> []"
    by (auto simp: pairwise_indexed_def batch_loop_empty split: if_splits)
  then show pp: "per_pair_scores feats f pair_ix = Inr r"
    using pairwise_indexed_rowwise [OF rw bs] r by simp
  fix k
  assume "k < length pair_ix"
  then show "r ! k = f (feats ! row_of (length feats) (fst (pair_ix ! k)))
                       (feats ! row_of (length feats) (snd (pair_ix ! k)))"
    using pp by (auto simp: per_pair_scores_eq split: if_splits)
next
  fix bs' :: int
  assume bs': "0 < bs'"
  show "pairwise_indexed feats pair_ix op bs' = pairwise_indexed feats pair_ix op bs"
  proof (cases "pair_ix = []")
    case True
    then show ?thesis using bs bs' by (simp add: pairwise_indexed_def batch_loop_empty)
  next
    case False
    then show ?thesis
      using pairwise_indexed_rowwise [OF rw bs] pairwise_indexed_rowwise [OF rw bs'] by simp
  qed
qed

theorem pairwise_indexed_refines_per_pair_witness:
  "rowwise_on [[1, 2], [3, 4], [5, 6]] pairwise_dot dot \<and> (0 :: int) < 2 \<and>
   pairwise_indexed [[1, 2], [3, 4], [5, 6]] [(0, 1), (1, 2), (- 1, 0)] pairwise_dot 2 =
     Inr [11, 39, 17] \<and>
   pairwise_indexed [[1, 2], [3, 4], [5, 6]] [(0, 1), (1, 2), (- 1, 0)] pairwise_dot 1 =
     Inr [11, 39, 17]"
proof -
  let ?feats = "[[1, 2], [3, 4], [5, 6 :: int]]"
  let ?pairs = "[(0, 1), (1, 2), (- 1, 0 :: int)]"
  have rw: "rowwise_on ?feats pairwise_dot dot" by (rule rowwise_on_pairwise_dot)
  have pp: "per_pair_scores ?feats dot ?pairs = Inr [11, 39, 17]"
    by (simp add: normalize_index_def dot_def)
  have two: "pairwise_indexed ?feats ?pairs pairwise_dot 2 = per_pair_scores ?feats dot ?pairs"
    using pairwise_indexed_refines_per_pair [OF rw, of 2 ?pairs, THEN conjunct1] by simp
  have one: "pairwise_indexed ?feats ?pairs pairwise_dot 1 = per_pair_scores ?feats dot ?pairs"
    using pairwise_indexed_refines_per_pair [OF rw, of 1 ?pairs, THEN conjunct1] by simp
  show ?thesis using rw pp two one by simp
qed

lemma batch_step_total:
  assumes total: "\<And>x y. \<exists>r. op x y = Inr r"
    and v1: "list_all (valid_index (length feats)) (map fst pair_ix)"
    and v2: "list_all (valid_index (length feats)) (map snd pair_ix)"
  shows "\<exists>corr. batch_step feats pair_ix op bs i = Inr corr"
proof -
  have "list_all (valid_index (length feats)) (map fst (take bs (drop i pair_ix)))"
    using v1 by (auto simp: list_all_iff dest!: in_set_takeD in_set_dropD)
  moreover have "list_all (valid_index (length feats)) (map snd (take bs (drop i pair_ix)))"
    using v2 by (auto simp: list_all_iff dest!: in_set_takeD in_set_dropD)
  ultimately show ?thesis
    using total by (simp add: batch_step_def fancy_index_eq)
qed

lemma batch_loop_total:
  assumes total: "\<And>x y. \<exists>r. op x y = Inr r"
    and v1: "list_all (valid_index (length feats)) (map fst pair_ix)"
    and v2: "list_all (valid_index (length feats)) (map snd pair_ix)"
    and bs: "0 < bs"
  shows "\<exists>cs. batch_loop feats pair_ix op bs i corrs = Inr cs \<and>
              (cs = [] \<longrightarrow> corrs = [] \<and> length pair_ix \<le> i)"
  using assms
proof (induction feats pair_ix op bs i corrs rule: batch_loop.induct)
  case (1 feats pair_ix op bs i corrs)
  show ?case
  proof (cases "length pair_ix \<le> i")
    case True
    then show ?thesis by (simp add: batch_loop.simps [of feats pair_ix op bs i corrs])
  next
    case False
    obtain corr where c: "batch_step feats pair_ix op bs i = Inr corr"
      using batch_step_total [of op feats pair_ix bs i] "1.prems"(1-3) by blast
    have "\<exists>cs. batch_loop feats pair_ix op bs (i + bs) (corrs @ [corr]) = Inr cs \<and>
              (cs = [] \<longrightarrow> corrs @ [corr] = [] \<and> length pair_ix \<le> i + bs)"
      using "1.IH" [of corr] False c "1.prems" by simp
    then show ?thesis
      using False c "1.prems"(4) by (simp add: batch_loop.simps [of feats pair_ix op bs i corrs])
  qed
qed

lemma pairwise_indexed_returns_or_asserts:
  assumes total: "\<And>x y. \<exists>r. op x y = Inr r"
    and v1: "list_all (valid_index (length feats)) (map fst pair_ix)"
    and v2: "list_all (valid_index (length feats)) (map snd pair_ix)"
    and bs: "0 < bs" and ne: "pair_ix \<noteq> []"
  shows "(\<exists>r. pairwise_indexed feats pair_ix op bs = Inr r \<and> length r = length pair_ix) \<or>
         pairwise_indexed feats pair_ix op bs = Inl AssertionError"
proof -
  obtain cs where cs: "batch_loop feats pair_ix op (nat bs) 0 [] = Inr cs" "cs \<noteq> []"
    using batch_loop_total [of op feats pair_ix "nat bs" 0 "[]"] total v1 v2 bs ne by auto
  then show ?thesis using bs by (simp add: pairwise_indexed_def Let_def)
qed

lemma pairwise_indexed_length:
  "pairwise_indexed feats pair_ix op bs = Inr r \<Longrightarrow> length r = length pair_ix"
  by (auto simp: pairwise_indexed_def Let_def split: if_splits sum.splits)

text \<open>
  C2: the length of the output is the number of pairs. Every sequence that
  \<open>pairwise_indexed\<close> returns has one score per pair (\<open>pairwise_indexed_length\<close>), and
  for at least one pair, indices in range and a scoring function that returns, the call
  either returns such a sequence or fails the assertion
  (\<open>pairwise_indexed_returns_or_asserts\<close>). The empty pair array is the case the code
  misses: with a positive batch size and a row-wise scoring function the call raises
  ValueError in \<open>np.concatenate\<close> instead of returning the empty sequence.
\<close>

theorem pairwise_indexed_no_pairs_raises:
  "pairwise_indexed [[1, 2], [3, 4]] [] pairwise_dot 2 =
     Inl (ValueError ''need at least one array to concatenate'')"
  by (simp add: pairwise_indexed_def batch_loop.simps [of _ "[]"])

section \<open>Properties of pairwise\_corr and pairwise\_cosine\<close>

subsection \<open>The score of one pair of rows\<close>

lemma map2_same: "map2 f xs (map g xs) = map (\<lambda>x. f x (g x)) xs"
  by (induction xs) auto

lemma same_shape_length: "same_shape x y \<Longrightarrow> length x = length y"
  unfolding same_shape_def by (metis length_map)

lemma map2_maps:
  "map2 f (map g xs) (map h ys) = map2 (\<lambda>a b. f (g a) (h b)) xs ys"
  by (induction xs ys rule: list_induct2') auto

lemma map2_map2_same:
  "map2 h (map2 f xs ys) (map2 g xs ys) = map2 (\<lambda>a b. h (f a b) (g a b)) xs ys"
  by (induction xs ys rule: list_induct2') auto

lemma map_map2: "map h (map2 f xs ys) = map2 (\<lambda>a b. h (f a b)) xs ys"
  by (induction xs ys rule: list_induct2') auto

lemma map2_commute:
  assumes "\<And>a b. f a b = f b a"
  shows "map2 f xs ys = map2 f ys xs"
proof (induction xs arbitrary: ys)
  case Nil
  show ?case by simp
next
  case (Cons x xs)
  then show ?case using assms by (cases ys) simp_all
qed

lemma center_rows:
  "map2 (\<lambda>r m. map (\<lambda>v. fl_sub (rounding N) v m) r) x (map (np_mean N) x) = map (centered N) x"
  by (simp add: map2_same centered_def)

lemma pairwise_corr_rows:
  assumes "same_shape x y"
  shows "pairwise_corr N x y = Inr (map2 (corr_row N) x y)"
proof -
  have numer: "map (add_reduce N) (map2 (map2 (fl_mul (rounding N)))
        (map (centered N) x) (map (centered N) y)) =
      map2 (\<lambda>r s. dot_rows N (centered N r) (centered N s)) x y"
    by (simp only: map2_maps map_map2 dot_rows_def)
  have denom: "map (fl_sqrt (rounding N)) (map2 (fl_mul (rounding N))
        (map (sum_squares N) (map (centered N) x)) (map (sum_squares N) (map (centered N) y))) =
      map2 (\<lambda>r s. fl_sqrt (rounding N)
        (fl_mul (rounding N) (sum_squares N (centered N r)) (sum_squares N (centered N s)))) x y"
    by (simp only: map2_maps map_map2)
  have "pairwise_corr N x y =
      Inr (map2 (fl_div (rounding N))
        (map (add_reduce N) (map2 (map2 (fl_mul (rounding N)))
          (map (centered N) x) (map (centered N) y)))
        (map (fl_sqrt (rounding N)) (map2 (fl_mul (rounding N))
          (map (sum_squares N) (map (centered N) x)) (map (sum_squares N) (map (centered N) y)))))"
    using assms
    by (simp only: pairwise_corr_def Let_def center_rows not_True_eq_False if_False
        sum_squares_def [abs_def])
  also have "\<dots> = Inr (map2 (corr_row N) x y)"
    unfolding numer denom map2_map2_same corr_row_def ..
  finally show ?thesis .
qed

lemma fl_mul_commute: "fl_mul rnd a b = fl_mul rnd b a"
  by (cases a; cases b) (simp_all add: mult.commute)

lemma dot_rows_commute: "dot_rows N r s = dot_rows N s r"
  unfolding dot_rows_def using map2_commute [of "fl_mul (rounding N)" r s] fl_mul_commute
  by metis

lemma corr_row_commute: "corr_row N r s = corr_row N s r"
  unfolding corr_row_def
  using dot_rows_commute [of N "centered N r" "centered N s"]
    fl_mul_commute [of "rounding N" "sum_squares N (centered N r)" "sum_squares N (centered N s)"]
  by simp

subsection \<open>Rounding to float64\<close>

lemma pow2_powr: "pow2 e = 2 powr (of_int e)"
  by (simp add: pow2_def powr_real_of_int inverse_eq_divide)

lemma pow2_pos: "0 < pow2 e"
  by (simp add: pow2_powr)

lemma ulp_exp_eq:
  assumes "pow2 L \<le> \<bar>x\<bar>" "\<bar>x\<bar> < pow2 (L + 1)"
  shows "ulp_exp x = max (L - 52) (- 1074)"
proof -
  have pos: "0 < \<bar>x\<bar>" using assms(1) pow2_pos [of L] by linarith
  have "\<lfloor>log 2 \<bar>x\<bar>\<rfloor> = L"
    using assms pos by (simp add: floor_log_eq_powr_iff pow2_powr)
  then show ?thesis by (simp add: ulp_exp_def)
qed

lemma round_half_even_int: "round_half_even (of_int m) = m"
  by (simp add: round_half_even_def)

text \<open>exact: x = m * 2^e\<close>

lemma pow2_add: "pow2 (a + b) = pow2 a * pow2 b"
  by (simp add: pow2_powr powr_add)

lemma pow2_diff_nat: "u \<le> e \<Longrightarrow> pow2 e / pow2 u = 2 ^ nat (e - u)"
proof -
  assume "u \<le> e"
  then have "pow2 e = pow2 (e - u) * pow2 u"
    using pow2_add [of "e - u" u] by simp
  moreover have "pow2 (e - u) = 2 ^ nat (e - u)"
    using \<open>u \<le> e\<close> by (simp add: pow2_def)
  ultimately show ?thesis using pow2_pos [of u] by simp
qed

lemma pow2_mono: "a \<le> b \<Longrightarrow> pow2 a \<le> pow2 b"
  by (simp add: pow2_powr)

lemma floor_log_less:
  assumes "0 < x" "x < pow2 n"
  shows "\<lfloor>log 2 x\<rfloor> < n"
proof -
  have "log 2 x < of_int n"
    using assms by (simp add: log_less_iff pow2_powr)
  then show ?thesis by linarith
qed

lemma rnd64_exact:
  assumes m: "\<bar>m\<bar> < 2 ^ 53" and e: "- 1074 \<le> e" "e \<le> 971"
  shows "rnd64 (of_int m * pow2 e) = Fin (of_int m * pow2 e)"
proof (cases "m = 0")
  case True
  then show ?thesis by (simp add: rnd64_def)
next
  case False
  let ?x = "of_int m * pow2 e :: real"
  have x0: "?x \<noteq> 0" using False pow2_pos [of e] by simp
  have absx: "\<bar>?x\<bar> = of_int \<bar>m\<bar> * pow2 e"
    using pow2_pos [of e] by (simp add: abs_mult)
  have "of_int \<bar>m\<bar> < (2 ^ 53 :: real)"
    using m by (metis of_int_less_iff of_int_numeral of_int_power)
  then have lt: "\<bar>?x\<bar> < pow2 (e + 53)"
    unfolding absx pow2_add [of e 53] using pow2_pos [of e]
    by (simp add: pow2_def mult.commute)
  have "\<lfloor>log 2 \<bar>?x\<bar>\<rfloor> < e + 53"
    using x0 lt by (intro floor_log_less) simp_all
  then have u: "ulp_exp ?x \<le> e"
    using e by (simp add: ulp_exp_def)
  have "?x / pow2 (ulp_exp ?x) = of_int m * (pow2 e / pow2 (ulp_exp ?x))"
    by simp
  also have "\<dots> = of_int m * 2 ^ nat (e - ulp_exp ?x)"
    by (simp only: pow2_diff_nat [OF u])
  finally have q: "?x / pow2 (ulp_exp ?x) = of_int (m * 2 ^ nat (e - ulp_exp ?x))"
    by simp
  have r: "of_int (round_half_even (?x / pow2 (ulp_exp ?x))) * pow2 (ulp_exp ?x) = ?x"
    unfolding q round_half_even_int using pow2_diff_nat [OF u] pow2_pos [of "ulp_exp ?x"]
    by (simp add: field_simps)
  have "pow2 (e + 53) \<le> pow2 1024" using e by (intro pow2_mono) simp
  then have fin: "\<bar>?x\<bar> < 2 ^ 1024" using lt by (simp add: pow2_def)
  show ?thesis
    unfolding rnd64_def Let_def r using x0 fin by auto
qed

lemma rnd64_exact_div:
  assumes "\<bar>m\<bar> < 2 ^ 53" "k \<le> 1074"
  shows "rnd64 (of_int m / 2 ^ k) = Fin (of_int m / 2 ^ k)"
proof (cases "k = 0")
  case True
  then show ?thesis using rnd64_exact [of m 0] assms by (simp add: pow2_def)
next
  case False
  then have "pow2 (- int k) = 1 / 2 ^ k" by (simp add: pow2_def)
  then show ?thesis using rnd64_exact [of m "- int k"] assms by simp
qed

lemma rnd64_exact_mul:
  assumes "\<bar>m\<bar> < 2 ^ 53" "k \<le> 971"
  shows "rnd64 (of_int m * 2 ^ k) = Fin (of_int m * 2 ^ k)"
  using rnd64_exact [of m "int k"] assms by (simp add: pow2_def)

lemma rnd64_int:
  assumes "\<bar>m\<bar> < 2 ^ 53"
  shows "rnd64 (of_int m) = Fin (of_int m)"
  using rnd64_exact_mul [of m 0] assms by simp

lemma rnd64_tenth3:
  "rnd64 (10808639105689191 / 2 ^ 55) = Fin (5404319552844596 / 2 ^ 54)"
proof -
  let ?x = "10808639105689191 / 2 ^ 55 :: real"
  have u: "ulp_exp ?x = - 54"
    using ulp_exp_eq [of "- 2" ?x] by (simp add: pow2_def)
  have q: "?x / pow2 (- 54) = 10808639105689191 / 2" by (simp add: pow2_def)
  have r: "round_half_even (10808639105689191 / 2) = 5404319552844596"
    by (simp add: round_half_even_def)
  show ?thesis
    unfolding rnd64_def Let_def u q r by (simp add: pow2_def)
qed


lemma rnd64_eq_div:
  assumes "x = of_int m / 2 ^ k" "\<bar>m\<bar> < 2 ^ 53" "k \<le> 1074"
  shows "rnd64 x = Fin x"
  using rnd64_exact_div [OF assms(2,3)] assms(1) by simp

lemma rnd64_eq_mul:
  assumes "x = of_int m * 2 ^ k" "\<bar>m\<bar> < 2 ^ 53" "k \<le> 971"
  shows "rnd64 x = Fin x"
  using rnd64_exact_mul [OF assms(2,3)] assms(1) by simp

lemma rnd64_zero: "rnd64 0 = Fin 0"
  by (simp add: rnd64_def)

lemma sum_tenth: "seq_sum rnd64 tenth_row = Fin (5404319552844596 / 2 ^ 54)"
proof -
  have a: "rnd64 tenth = Fin tenth"
    by (rule rnd64_eq_div [of _ 3602879701896397 55]) (simp_all add: tenth_def)
  have b: "rnd64 (tenth + tenth) = Fin (tenth + tenth)"
    by (rule rnd64_eq_div [of _ 3602879701896397 54]) (simp_all add: tenth_def)
  have e: "tenth + tenth + tenth = 10808639105689191 / 2 ^ 55"
    by (simp add: tenth_def)
  have c: "rnd64 (tenth + tenth + tenth) = Fin (5404319552844596 / 2 ^ 54)"
    unfolding e by (rule rnd64_tenth3)
  show ?thesis
    unfolding tenth_row_def
    by (simp only: seq_sum_def foldl.simps fl_add.simps add_0 a b c)
qed

lemma mean_tenth:
  "np_mean float64 tenth_row = Fin (7205759403792795 / 2 ^ 56)"
proof -
  let ?x = "5404319552844596 / 2 ^ 54 / 3 :: real"
  have three: "rnd64 3 = Fin 3"
    by (rule rnd64_eq_mul [of _ 3 0]) simp_all
  have u: "ulp_exp ?x = - 56"
    using ulp_exp_eq [of "- 4" ?x] by (simp add: pow2_def)
  have q: "?x / pow2 (- 56) = 21617278211378384 / 3" by (simp add: pow2_def)
  have r: "round_half_even (21617278211378384 / 3) = 7205759403792795"
    by (simp add: round_half_even_def)
  have d: "rnd64 ?x = Fin (7205759403792795 / 2 ^ 56)"
    unfolding rnd64_def Let_def u q r by (simp add: pow2_def)
  have len: "length tenth_row = 3" by (simp add: tenth_row_def)
  show ?thesis
    using d by (simp add: np_mean_def float64_def sum_tenth three len)
qed

lemma centered_tenth:
  "centered float64 tenth_row =
     [Fin (- (1 / 2 ^ 56)), Fin (- (1 / 2 ^ 56)), Fin (- (1 / 2 ^ 56))]"
proof -
  have "tenth + - (7205759403792795 / 2 ^ 56) = - (1 / 2 ^ 56)"
    by (simp add: tenth_def)
  moreover have "rnd64 (- (1 / 2 ^ 56)) = Fin (- (1 / 2 ^ 56))"
    by (rule rnd64_eq_div [of _ "- 1" 56]) simp_all
  ultimately have "fl_sub rnd64 (Fin tenth) (Fin (7205759403792795 / 2 ^ 56)) = Fin (- (1 / 2 ^ 56))"
    by (simp add: fl_sub_def)
  then show ?thesis
    unfolding centered_def mean_tenth by (simp add: tenth_row_def float64_def)
qed

lemma ssq_tenth:
  "sum_squares float64 [Fin (- (1 / 2 ^ 56)), Fin (- (1 / 2 ^ 56)), Fin (- (1 / 2 ^ 56))] =
     Fin (3 / 2 ^ 112)"
proof -
  have sq: "- (1 / 2 ^ 56) * - (1 / 2 ^ 56) = (1 / 2 ^ 112 :: real)"
    by simp
  have a: "rnd64 (1 / 2 ^ 112) = Fin (1 / 2 ^ 112)"
    by (rule rnd64_eq_div [of _ 1 112]) simp_all
  have b: "rnd64 (1 / 2 ^ 112 + 1 / 2 ^ 112) = Fin (1 / 2 ^ 112 + 1 / 2 ^ 112)"
    by (rule rnd64_eq_div [of _ 1 111]) simp_all
  have c: "rnd64 (1 / 2 ^ 112 + 1 / 2 ^ 112 + 1 / 2 ^ 112) = Fin (3 / 2 ^ 112)"
    using rnd64_eq_div [of "1 / 2 ^ 112 + 1 / 2 ^ 112 + 1 / 2 ^ 112" 3 112] by simp
  show ?thesis
    by (simp only: sum_squares_def float64_def numerics.simps list.map fl_mul.simps sq a
        seq_sum_def foldl.simps fl_add.simps add_0 b c)
qed


lemma sqrt_ssq: "sqrt (3 / 2 ^ 112 * (3 / 2 ^ 112)) = 3 / 2 ^ 112"
  by (simp only: real_sqrt_abs2) simp

lemma corr_row_tenth:
  "corr_row float64 tenth_row tenth_row = Fin 1"
proof -
  let ?c = "[Fin (- (1 / 2 ^ 56)), Fin (- (1 / 2 ^ 56)), Fin (- (1 / 2 ^ 56))]"
  have dot: "dot_rows float64 ?c ?c = sum_squares float64 ?c"
    by (simp add: dot_rows_def sum_squares_def)
  have p: "rnd64 (3 / 2 ^ 112 * (3 / 2 ^ 112)) = Fin (3 / 2 ^ 112 * (3 / 2 ^ 112))"
    by (rule rnd64_eq_div [of _ 9 224]) simp_all
  have s: "rnd64 (3 / 2 ^ 112) = Fin (3 / 2 ^ 112)"
    by (rule rnd64_eq_div [of _ 3 112]) simp_all
  have one: "rnd64 1 = Fin 1"
    by (rule rnd64_eq_mul [of _ 1 0]) simp_all
  have den: "fl_sqrt rnd64 (fl_mul rnd64 (Fin (3 / 2 ^ 112)) (Fin (3 / 2 ^ 112))) = Fin (3 / 2 ^ 112)"
    by (simp only: fl_mul.simps p fl_sqrt.simps sqrt_ssq s) simp
  have "fl_div rnd64 (Fin (3 / 2 ^ 112)) (Fin (3 / 2 ^ 112)) = Fin 1"
    using one by simp
  then show ?thesis
    unfolding corr_row_def centered_tenth dot ssq_tenth
    by (simp only: float64_def numerics.simps den)
qed


lemma rnd64_pow: "k \<le> 971 \<Longrightarrow> rnd64 (2 ^ k) = Fin (2 ^ k)"
  using rnd64_exact_mul [of 1 k] by simp

lemma rnd64_neg_pow: "k \<le> 971 \<Longrightarrow> rnd64 (- (2 ^ k)) = Fin (- (2 ^ k))"
  using rnd64_exact_mul [of "- 1" k] by simp

lemma rnd64_overflow: "rnd64 (2 ^ 1204) = PInf"
proof -
  have u: "ulp_exp (2 ^ 1204) = 1152"
    using ulp_exp_eq [of 1204 "2 ^ 1204"] by (simp add: pow2_def)
  have q: "(2 ^ 1204 :: real) / pow2 1152 = of_int (2 ^ 52)"
    by (simp add: pow2_def)
  show ?thesis
    unfolding rnd64_def Let_def u q round_half_even_int by (simp add: pow2_def)
qed

lemma mean_big: "np_mean float64 big_row = Fin 0"
proof -
  have a: "rnd64 (0 + - (2 ^ 300)) = Fin (- (2 ^ 300))"
    using rnd64_neg_pow [of 300] by simp
  have b: "rnd64 (- (2 ^ 300) + - (2 ^ 300)) = Fin (- (2 ^ 301))"
    using rnd64_neg_pow [of 301] by simp
  have c: "rnd64 (- (2 ^ 301) + 2 ^ 300) = Fin (- (2 ^ 300))"
    using rnd64_neg_pow [of 300] by simp
  have d: "rnd64 (- (2 ^ 300) + 2 ^ 300) = Fin 0"
    by (simp add: rnd64_zero)
  have s: "seq_sum rnd64 big_row = Fin 0"
    by (simp only: big_row_def seq_sum_def foldl.simps fl_add.simps a b c d)
  have four: "rnd64 (real (length big_row)) = Fin 4"
    using rnd64_int [of 4] by (simp add: big_row_def)
  show ?thesis
    by (simp add: np_mean_def float64_def s four rnd64_zero)
qed

lemma centered_big: "centered float64 big_row = big_row"
proof -
  have "fl_sub rnd64 (Fin (- (2 ^ 300))) (Fin 0) = Fin (- (2 ^ 300))"
    using rnd64_neg_pow [of 300] by (simp add: fl_sub_def)
  moreover have "fl_sub rnd64 (Fin (2 ^ 300)) (Fin 0) = Fin (2 ^ 300)"
    using rnd64_pow [of 300] by (simp add: fl_sub_def)
  ultimately show ?thesis
    unfolding centered_def mean_big by (simp add: big_row_def float64_def)
qed

lemma ssq_big: "sum_squares float64 big_row = Fin (2 ^ 602)"
proof -
  have n: "fl_mul rnd64 (Fin (- (2 ^ 300))) (Fin (- (2 ^ 300))) = Fin (2 ^ 600)"
    using rnd64_pow [of 600] by (simp add: power_add [symmetric])
  have p: "fl_mul rnd64 (Fin (2 ^ 300)) (Fin (2 ^ 300)) = Fin (2 ^ 600)"
    using rnd64_pow [of 600] by (simp add: power_add [symmetric])
  have a: "rnd64 (0 + 2 ^ 600) = Fin (2 ^ 600)"
    using rnd64_pow [of 600] by simp
  have b: "rnd64 (2 ^ 600 + 2 ^ 600) = Fin (2 ^ 601)"
    using rnd64_pow [of 601] by simp
  have c: "rnd64 (2 ^ 601 + 2 ^ 600) = Fin (3 * 2 ^ 600)"
    using rnd64_exact_mul [of 3 600] by simp
  have d: "rnd64 (3 * 2 ^ 600 + 2 ^ 600) = Fin (2 ^ 602)"
    using rnd64_pow [of 602] by simp
  show ?thesis
    unfolding sum_squares_def big_row_def
    by (simp only: float64_def numerics.simps list.map n p seq_sum_def foldl.simps
        fl_add.simps a b c d)
qed

lemma dot_big: "dot_rows float64 big_row big_row = Fin (2 ^ 602)"
proof -
  have "dot_rows float64 big_row big_row = sum_squares float64 big_row"
    by (simp add: dot_rows_def sum_squares_def big_row_def)
  then show ?thesis by (simp only: ssq_big)
qed

lemma corr_row_big: "corr_row float64 big_row big_row = Fin 0"
proof -
  have "fl_mul rnd64 (Fin (2 ^ 602)) (Fin (2 ^ 602)) = PInf"
    using rnd64_overflow by (simp add: power_add [symmetric])
  then show ?thesis
    unfolding corr_row_def centered_big dot_big ssq_big
    by (simp add: float64_def)
qed

lemma pearson_big: "pearson float64 big_row big_row = Fin 1"
proof -
  have "sqrt (2 ^ 602) = (2 ^ 301 :: real)"
    using real_sqrt_abs [of "2 ^ 301"] by (simp add: power_mult [symmetric])
  then have r: "fl_sqrt rnd64 (Fin (2 ^ 602)) = Fin (2 ^ 301)"
    using rnd64_pow [of 301] by simp
  have m: "fl_mul rnd64 (Fin (2 ^ 301)) (Fin (2 ^ 301)) = Fin (2 ^ 602)"
    using rnd64_pow [of 602] by (simp add: power_add [symmetric])
  have one: "rnd64 1 = Fin 1"
    using rnd64_pow [of 0] by simp
  have d: "fl_div rnd64 (Fin (2 ^ 602)) (Fin (2 ^ 602)) = Fin 1"
    using one by simp
  show ?thesis
    unfolding pearson_def centered_big dot_big ssq_big
    by (simp only: float64_def numerics.simps r m d)
qed

subsection \<open>Rows centred to zero, and exact arithmetic\<close>

lemma centered_zero:
  assumes z: "rounding N 0 = Fin 0" and c: "constant_row r" and m: "mean_is_exact N r"
  shows "list_all (\<lambda>v. v = Fin 0) (centered N r)"
proof (cases r)
  case Nil
  then show ?thesis by (simp add: centered_def)
next
  case (Cons v vs)
  then obtain a where v: "v = Fin a" using c by (cases v) auto
  have all: "\<forall>w \<in> set r. w = Fin a" using c Cons v by (auto simp: list_all_iff)
  have mean: "np_mean N r = Fin a" using m Cons v by simp
  have "fl_sub (rounding N) (Fin a) (Fin a) = Fin 0"
    using z by (simp add: fl_sub_def)
  then show ?thesis
    unfolding centered_def mean using all by (auto simp: list_all_iff)
qed

lemma fl_mul_zero_l:
  "rnd 0 = Fin 0 \<Longrightarrow> fl_mul rnd (Fin 0) w = Fin 0 \<or> fl_mul rnd (Fin 0) w = NaN"
  by (cases w) auto

lemma corr_row_zero_centred:
  assumes zs: "zero_safe N" and c: "constant_row r" and m: "mean_is_exact N r"
  shows "corr_row N r s = NaN"
proof -
  let ?rnd = "rounding N"
  have z: "?rnd 0 = Fin 0" using zs by (simp add: zero_safe_def)
  have xc: "list_all (\<lambda>v. v = Fin 0) (centered N r)"
    using z c m by (rule centered_zero)
  have "fl_mul ?rnd a b = Fin 0 \<or> fl_mul ?rnd a b = NaN"
    if "(a, b) \<in> set (zip (centered N r) (centered N s))" for a b
  proof -
    have "a \<in> set (centered N r)" using that by (rule set_zip_leftD)
    then have "a = Fin 0" using xc by (simp add: list_all_iff)
    then show ?thesis using fl_mul_zero_l [of ?rnd b, OF z] by simp
  qed
  then have "list_all (\<lambda>v. v = Fin 0 \<or> v = NaN)
      (map2 (fl_mul ?rnd) (centered N r) (centered N s))"
    by (auto simp: list_all_iff)
  then have dot: "dot_rows N (centered N r) (centered N s) = Fin 0 \<or>
      dot_rows N (centered N r) (centered N s) = NaN"
    using zs unfolding zero_safe_def dot_rows_def by blast
  have "list_all (\<lambda>v. v = Fin 0) (map (\<lambda>v. fl_mul ?rnd v v) (centered N r))"
    using xc z by (auto simp: list_all_iff)
  then have ssq: "sum_squares N (centered N r) = Fin 0"
    using zs unfolding zero_safe_def sum_squares_def by blast
  have "fl_mul ?rnd (Fin 0) (sum_squares N (centered N s)) = Fin 0 \<or>
      fl_mul ?rnd (Fin 0) (sum_squares N (centered N s)) = NaN"
    using z by (rule fl_mul_zero_l [of "rounding N"])
  then have den: "fl_sqrt ?rnd (fl_mul ?rnd (sum_squares N (centered N r))
        (sum_squares N (centered N s))) = Fin 0 \<or>
      fl_sqrt ?rnd (fl_mul ?rnd (sum_squares N (centered N r))
        (sum_squares N (centered N s))) = NaN"
    unfolding ssq using z by auto
  show ?thesis
    unfolding corr_row_def using dot den by auto
qed

lemma foldl_zero:
  assumes "rnd 0 = Fin 0" "list_all (\<lambda>v. v = Fin 0) xs"
  shows "foldl (fl_add rnd) (Fin 0) xs = Fin 0"
  using assms(2) by (induction xs) (simp_all add: assms(1))

lemma foldl_nan: "foldl (fl_add rnd) NaN xs = NaN"
  by (induction xs) simp_all

lemma foldl_zero_nan:
  assumes "rnd 0 = Fin 0" "list_all (\<lambda>v. v = Fin 0 \<or> v = NaN) xs"
  shows "foldl (fl_add rnd) (Fin 0) xs = Fin 0 \<or> foldl (fl_add rnd) (Fin 0) xs = NaN"
  using assms(2)
proof (induction xs)
  case Nil
  show ?case by simp
next
  case (Cons x xs)
  then show ?case by (auto simp: assms(1) foldl_nan)
qed

lemma zero_safe_seq: "rnd 0 = Fin 0 \<Longrightarrow> zero_safe \<lparr>rounding = rnd, add_reduce = seq_sum rnd\<rparr>"
  by (simp add: zero_safe_def seq_sum_def foldl_zero foldl_zero_nan)

lemma zero_safe_exact: "zero_safe exact"
  unfolding exact_def by (rule zero_safe_seq) simp

lemma zero_safe_float64: "zero_safe float64"
  unfolding float64_def by (rule zero_safe_seq) (rule rnd64_zero)

lemma foldl_Fin: "foldl (fl_add Fin) (Fin a) (map Fin vs) = Fin (a + sum_list vs)"
  by (induction vs arbitrary: a) (simp_all add: add.assoc)

lemma seq_sum_Fin: "seq_sum Fin (map Fin vs) = Fin (sum_list vs)"
  by (simp add: seq_sum_def foldl_Fin)

lemma finite_row_map: "list_all is_fin r \<Longrightarrow> \<exists>vs. r = map Fin vs"
proof (induction r)
  case Nil
  show ?case by simp
next
  case (Cons v r)
  then obtain vs where "r = map Fin vs" by auto
  moreover obtain a where "v = Fin a" using Cons.prems by (cases v) auto
  ultimately have "v # r = map Fin (a # vs)" by simp
  then show ?case by (rule exI)
qed

lemma centered_exact_fin: "\<exists>cs. centered exact (map Fin vs) = map Fin cs"
proof (cases vs)
  case Nil
  then show ?thesis by (simp add: centered_def)
next
  case (Cons a as)
  have "np_mean exact (map Fin vs) =
      fl_div Fin (Fin (sum_list vs)) (Fin (real (length vs)))"
    by (simp only: np_mean_def exact_def numerics.simps seq_sum_Fin length_map)
  also have "\<dots> = Fin (sum_list vs / real (length vs))"
    using Cons by simp
  finally have "centered exact (map Fin vs) =
      map Fin (map (\<lambda>v. v + - (sum_list vs / real (length vs))) vs)"
    by (simp add: centered_def fl_sub_def exact_def)
  then show ?thesis by blast
qed

lemma sum_squares_exact: "sum_squares exact (map Fin cs) = Fin (sum_list (map (\<lambda>v. v * v) cs))"
proof -
  have "map (\<lambda>v. fl_mul Fin v v) (map Fin cs) = map Fin (map (\<lambda>v. v * v) cs)"
    by simp
  then show ?thesis
    unfolding sum_squares_def exact_def numerics.simps by (simp only: seq_sum_Fin)
qed

lemma corr_row_exact_pearson:
  assumes "list_all is_fin r" "list_all is_fin s"
  shows "corr_row exact r s = pearson exact r s"
proof -
  obtain vr vs where v: "r = map Fin vr" "s = map Fin vs"
    using assms finite_row_map by blast
  obtain cr cs where c: "centered exact r = map Fin cr" "centered exact s = map Fin cs"
    using centered_exact_fin v by blast
  let ?A = "sum_list (map (\<lambda>v. v * v) cr)" and ?B = "sum_list (map (\<lambda>v. v * v) cs)"
  have A: "0 \<le> ?A" by (rule sum_list_nonneg) auto
  have B: "0 \<le> ?B" by (rule sum_list_nonneg) auto
  have "fl_sqrt Fin (fl_mul Fin (Fin ?A) (Fin ?B)) =
      fl_mul Fin (fl_sqrt Fin (Fin ?A)) (fl_sqrt Fin (Fin ?B))"
    using A B by (simp add: real_sqrt_mult not_less)
  then show ?thesis
    unfolding corr_row_def pearson_def c sum_squares_exact by (simp add: exact_def)
qed

lemma constant_row_exact:
  assumes "constant_row r"
  shows "mean_is_exact exact r"
proof (cases r)
  case Nil
  then show ?thesis by simp
next
  case (Cons v vs)
  then obtain a where v: "v = Fin a" using assms by (cases v) auto
  have "\<forall>w \<in> set r. w = Fin a" using assms Cons v by (auto simp: list_all_iff)
  then have r: "r = map Fin (replicate (length r) a)"
    by (simp add: map_replicate_const replicate_length_same)
  have "seq_sum Fin r = Fin (real (length r) * a)"
    using seq_sum_Fin [of "replicate (length r) a"] r by (simp add: sum_list_replicate)
  then have "np_mean exact r = fl_div Fin (Fin (real (length r) * a)) (Fin (real (length r)))"
    by (simp only: np_mean_def exact_def numerics.simps)
  also have "\<dots> = Fin a" using Cons by simp
  finally have "np_mean exact r = Fin a" .
  then show ?thesis using Cons v by simp
qed

lemma rectangular_lengths:
  "rectangular feats \<Longrightarrow> r \<in> set feats \<Longrightarrow> s \<in> set feats \<Longrightarrow> length r = length s"
  by (cases feats) (auto simp: list_all_iff)

lemma rowwise_on_pairwise_corr:
  assumes "rectangular feats"
  shows "rowwise_on feats (pairwise_corr N) (corr_row N)"
  unfolding rowwise_on_def
proof (intro allI impI)
  fix x y :: "npfloat matrix"
  assume h: "length x = length y \<and> set x \<subseteq> set feats \<and> set y \<subseteq> set feats"
  have "\<forall>i < length x. length (x ! i) = length (y ! i)"
    using h assms by (metis nth_mem rectangular_lengths subsetD)
  then have "map length x = map length y"
    using h by (simp add: list_eq_iff_nth_eq)
  then show "pairwise_corr N x y = Inr (map2 (corr_row N) x y)"
    by (simp add: pairwise_corr_rows same_shape_def)
qed

lemma mean_two: "np_mean float64 [Fin 2, Fin 2] = Fin 2"
proof -
  have a: "rnd64 (0 + 2) = Fin 2" using rnd64_int [of 2] by simp
  have b: "rnd64 (2 + 2) = Fin 4" using rnd64_int [of 4] by simp
  have s: "seq_sum rnd64 [Fin 2, Fin 2] = Fin 4"
    by (simp only: seq_sum_def foldl.simps fl_add.simps a b)
  have n: "rnd64 (real (length [Fin 2, Fin 2])) = Fin 2" using rnd64_int [of 2] by simp
  have d: "rnd64 (4 / 2) = Fin 2" using rnd64_int [of 2] by simp
  show ?thesis
    unfolding np_mean_def float64_def numerics.simps s n using d by simp
qed

subsection \<open>Cosine similarity\<close>

lemma norm_rows:
  "map2 (\<lambda>r n. map (\<lambda>v. np_divide v n) r) x (norm_axis1 x) =
   map (\<lambda>r. map (\<lambda>v. np_divide v (l2_norm r)) r) x"
  by (simp add: norm_axis1_def map2_same l2_norm_def)

lemma pairwise_cosine_rows:
  assumes "same_shape x y"
  shows "pairwise_cosine x y = Inr (map2 cosine_row x y)"
proof -
  have "pairwise_cosine x y =
      Inr (map np_sum (map2 (map2 np_multiply)
        (map (\<lambda>r. map (\<lambda>v. np_divide v (l2_norm r)) r) x)
        (map (\<lambda>r. map (\<lambda>v. np_divide v (l2_norm r)) r) y)))"
    using assms by (simp only: pairwise_cosine_def Let_def norm_rows not_True_eq_False if_False)
  also have "\<dots> = Inr (map2 cosine_row x y)"
    by (simp only: map2_maps map_map2 cosine_row_def)
  finally show ?thesis .
qed

lemma np_divide_scale: "0 < c \<Longrightarrow> np_divide (c * v) (c * n) = np_divide v n"
  by (simp add: np_divide_def zero_less_mult_iff)

lemma l2_norm_scale: "0 < c \<Longrightarrow> l2_norm (map (\<lambda>v. c * v) r) = c * l2_norm r"
proof -
  assume c: "0 < c"
  have "sum_list (map (\<lambda>v. (c * v)\<^sup>2) r) = c\<^sup>2 * sum_list (map (\<lambda>v. v\<^sup>2) r)"
    by (simp add: power_mult_distrib sum_list_const_mult)
  then have "l2_norm (map (\<lambda>v. c * v) r) = sqrt (c\<^sup>2 * sum_list (map (\<lambda>v. v\<^sup>2) r))"
    by (simp add: l2_norm_def o_def)
  also have "\<dots> = c * l2_norm r"
    using c by (simp add: real_sqrt_mult l2_norm_def)
  finally show ?thesis .
qed

lemma cosine_row_scale: "0 < c \<Longrightarrow> cosine_row (map (\<lambda>v. c * v) r) s = cosine_row r s"
  by (simp add: cosine_row_def l2_norm_scale np_divide_scale o_def)

lemma same_shape_scale: "same_shape (scale c x) y = same_shape x y"
  by (simp add: same_shape_def scale_def o_def)

subsection \<open>The statements\<close>

text \<open>
  C3, as stated, fails in float64: for the row \<open>[-2^300, -2^300, 2^300, 2^300]\<close> against
  itself every step is exact up to the product of the two sums of squares, \<open>2^1204\<close>,
  which overflows to infinity, so \<open>pairwise_corr\<close> returns \<open>0.0\<close>, while the dot product
  divided by the product of the two L2 norms is \<open>1.0\<close>.
\<close>

theorem pairwise_corr_pearson_counterexample:
  "same_shape [big_row] [big_row] \<and>
   pairwise_corr float64 [big_row] [big_row] = Inr [Fin 0] \<and>
   map2 (pearson float64) [big_row] [big_row] = [Fin 1]"
proof -
  have sh: "same_shape [big_row] [big_row]" by (simp add: same_shape_def)
  then have "pairwise_corr float64 [big_row] [big_row] = Inr (map2 (corr_row float64) [big_row] [big_row])"
    by (rule pairwise_corr_rows)
  then show ?thesis using sh corr_row_big pearson_big by simp
qed

text \<open>
  C3, amended: for every pair of equal-shaped batch matrices, every row of the array
  returned by \<open>pairwise_corr\<close> is computed from the corresponding rows as: mean-centre
  each row along the feature axis, take the dot product of the centred vectors, and
  divide by the square root of the product of the two centred vectors' sums of squares,
  each operation rounded as the arithmetic rounds it; in exact arithmetic on finite
  entries this is the Pearson correlation with the product of the two L2 norms as the
  divisor.
\<close>

theorem pairwise_corr_rowwise:
  "(same_shape x y \<longrightarrow>
      (\<exists>r. pairwise_corr N x y = Inr r \<and> r = map2 (corr_row N) x y \<and>
           length r = length x \<and>
           (\<forall>k < length x. r ! k = corr_row N (x ! k) (y ! k)))) \<and>
   (same_shape x y \<and> finite_rows x \<and> finite_rows y \<longrightarrow>
      pairwise_corr exact x y = Inr (map2 (pearson exact) x y))"
proof (intro conjI impI)
  assume sh: "same_shape x y"
  then have len: "length x = length y" by (rule same_shape_length)
  have "pairwise_corr N x y = Inr (map2 (corr_row N) x y)"
    using sh by (rule pairwise_corr_rows)
  moreover have "length (map2 (corr_row N) x y) = length x" using len by simp
  moreover have "\<forall>k < length x. map2 (corr_row N) x y ! k = corr_row N (x ! k) (y ! k)"
    using len by simp
  ultimately show "\<exists>r. pairwise_corr N x y = Inr r \<and> r = map2 (corr_row N) x y \<and>
      length r = length x \<and> (\<forall>k < length x. r ! k = corr_row N (x ! k) (y ! k))"
    by blast
next
  assume h: "same_shape x y \<and> finite_rows x \<and> finite_rows y"
  have "corr_row exact a b = pearson exact a b" if "(a, b) \<in> set (zip x y)" for a b
  proof -
    have "a \<in> set x" "b \<in> set y"
      using that by (auto dest: set_zip_leftD set_zip_rightD)
    then have "list_all is_fin a" "list_all is_fin b"
      using h by (auto simp: finite_rows_def list_all_iff)
    then show ?thesis by (rule corr_row_exact_pearson)
  qed
  then have "map2 (corr_row exact) x y = map2 (pearson exact) x y"
    by auto
  then show "pairwise_corr exact x y = Inr (map2 (pearson exact) x y)"
    using h pairwise_corr_rows [of x y exact] by simp
qed

theorem pairwise_corr_rowwise_witness:
  "same_shape [big_row] [big_row] \<and> finite_rows [big_row] \<and>
   pairwise_corr float64 [big_row] [big_row] = Inr [Fin 0] \<and>
   pairwise_corr exact [big_row] [big_row] = Inr [pearson exact big_row big_row]"
proof -
  have sh: "same_shape [big_row] [big_row]" by (simp add: same_shape_def)
  have fin: "finite_rows [big_row]" by (simp add: finite_rows_def big_row_def)
  have a: "pairwise_corr float64 [big_row] [big_row] = Inr [Fin 0]"
    using pairwise_corr_rowwise [of "[big_row]" "[big_row]" float64, THEN conjunct1] sh
      corr_row_big by simp
  have b: "pairwise_corr exact [big_row] [big_row] = Inr [pearson exact big_row big_row]"
    using pairwise_corr_rowwise [of "[big_row]" "[big_row]" float64, THEN conjunct2] sh fin
    by simp
  show ?thesis using sh fin a b by simp
qed

text \<open>
  C9: \<open>pairwise_corr\<close> is symmetric in its two arguments: for two arrays of the same
  shape, swapping them gives the same scores, whatever the rounding and the order of
  summation (the products commute, and the same lists are summed).
\<close>

theorem pairwise_corr_symmetric:
  assumes "same_shape x y"
  shows "pairwise_corr N x y = pairwise_corr N y x"
proof -
  have "same_shape y x" using assms by (simp add: same_shape_def)
  then have "pairwise_corr N y x = Inr (map2 (corr_row N) y x)" by (rule pairwise_corr_rows)
  moreover have "pairwise_corr N x y = Inr (map2 (corr_row N) x y)"
    using assms by (rule pairwise_corr_rows)
  moreover have "map2 (corr_row N) x y = map2 (corr_row N) y x"
    by (rule map2_commute) (rule corr_row_commute)
  ultimately show ?thesis by simp
qed

theorem pairwise_corr_symmetric_witness:
  "same_shape [[Fin 1, Fin 2, Fin 3]] [[Fin 3, Fin 1, Fin 2]] \<and>
   pairwise_corr float64 [[Fin 1, Fin 2, Fin 3]] [[Fin 3, Fin 1, Fin 2]] =
   pairwise_corr float64 [[Fin 3, Fin 1, Fin 2]] [[Fin 1, Fin 2, Fin 3]]"
proof -
  have sh: "same_shape [[Fin 1, Fin 2, Fin 3]] [[Fin 3, Fin 1, Fin 2]]"
    by (simp add: same_shape_def)
  show ?thesis using sh pairwise_corr_symmetric [OF sh, of float64] by simp
qed

text \<open>
  C10: \<open>pairwise_cosine\<close> is invariant under positive scaling of its first argument:
  for two arrays of the same shape and every \<open>c > 0\<close>, the scores of \<open>c \<cdot> x\<close> against
  \<open>y\<close> are the scores of \<open>x\<close> against \<open>y\<close>, in exact arithmetic. (A zero row gives NaN
  on both sides, so the rows need not be non-zero.)
\<close>

theorem pairwise_cosine_scale_invariant:
  assumes "same_shape x y" and "0 < c"
  shows "pairwise_cosine (scale c x) y = pairwise_cosine x y"
proof -
  have "map2 cosine_row (scale c x) y = map2 (\<lambda>r s. cosine_row (map (\<lambda>v. c * v) r) s) x y"
    unfolding scale_def using map2_maps [of cosine_row "map (\<lambda>v. c * v)" x "\<lambda>s. s" y] by simp
  then show ?thesis
    using assms pairwise_cosine_rows [of x y] pairwise_cosine_rows [of "scale c x" y]
    by (simp add: same_shape_scale cosine_row_scale)
qed

theorem pairwise_cosine_scale_invariant_witness:
  "same_shape [[3, 4], [0, 0 :: real]] [[4, 3], [1, 2 :: real]] \<and> (0 :: real) < 2 \<and>
   pairwise_cosine [[6, 8], [0, 0]] [[4, 3], [1, 2]] =
   pairwise_cosine [[3, 4], [0, 0]] [[4, 3], [1, 2]]"
proof -
  have sh: "same_shape [[3, 4], [0, 0 :: real]] [[4, 3], [1, 2 :: real]]"
    by (simp add: same_shape_def)
  have c: "(0 :: real) < 2" by simp
  show ?thesis using sh pairwise_cosine_scale_invariant [OF sh c] by (simp add: scale_def)
qed

text \<open>
  C7, as stated, fails in float64: the computed mean of the constant row
  \<open>[0.1, 0.1, 0.1]\<close> is \<open>0.10000000000000002\<close>, the centred row is not zero, and
  \<open>pairwise_corr\<close> of the row with itself returns \<open>1.0\<close>, not NaN.
\<close>

theorem pairwise_corr_constant_row_counterexample:
  "constant_row tenth_row \<and> same_shape [tenth_row] [tenth_row] \<and>
   np_mean float64 tenth_row = Fin (7205759403792795 / 2 ^ 56) \<and>
   pairwise_corr float64 [tenth_row] [tenth_row] = Inr [Fin 1]"
proof -
  have sh: "same_shape [tenth_row] [tenth_row]" by (simp add: same_shape_def)
  then have "pairwise_corr float64 [tenth_row] [tenth_row] =
      Inr (map2 (corr_row float64) [tenth_row] [tenth_row])"
    by (rule pairwise_corr_rows)
  moreover have "constant_row tenth_row" by (simp add: tenth_row_def)
  ultimately show ?thesis using sh mean_tenth corr_row_tenth by simp
qed

text \<open>
  C7, amended: \<open>pairwise_corr\<close> never raises on a zero-variance row. For every batch of
  two arrays of the same shape it returns normally, one score per row, and where a row of
  either input holds one finite value throughout, the score of that row is NaN whenever
  the computed mean of the row is exactly that value, in every numerics that rounds zero
  to zero and sums zeros to zero (float64 and exact arithmetic do); in exact arithmetic
  the mean of such a row always is that value. Whatever the scores are, NaN included,
  \<open>pairwise_indexed\<close> over a rectangular feature matrix with indices in range and a
  positive batch size returns them as values at the positions of their pairs.
\<close>

theorem pairwise_corr_zero_variance:
  "(same_shape x y \<longrightarrow> (\<exists>r. pairwise_corr N x y = Inr r \<and> length r = length x)) \<and>
   (zero_safe N \<and> same_shape x y \<and> k < length x \<and>
    (constant_row (x ! k) \<and> mean_is_exact N (x ! k) \<or>
     constant_row (y ! k) \<and> mean_is_exact N (y ! k)) \<longrightarrow>
      (\<exists>r. pairwise_corr N x y = Inr r \<and> length r = length x \<and> r ! k = NaN)) \<and>
   zero_safe exact \<and> zero_safe float64 \<and>
   (constant_row row \<longrightarrow> mean_is_exact exact row) \<and>
   (rectangular feats \<and> 0 < bs \<and>
    list_all (valid_index (length feats)) (map fst pair_ix) \<and>
    list_all (valid_index (length feats)) (map snd pair_ix) \<and>
    j < length pair_ix \<longrightarrow>
      (\<exists>r. pairwise_indexed feats pair_ix (pairwise_corr N) bs = Inr r \<and>
           length r = length pair_ix \<and>
           r ! j = corr_row N (feats ! row_of (length feats) (fst (pair_ix ! j)))
                              (feats ! row_of (length feats) (snd (pair_ix ! j))) \<and>
           (zero_safe N \<and>
            (constant_row (feats ! row_of (length feats) (fst (pair_ix ! j))) \<and>
             mean_is_exact N (feats ! row_of (length feats) (fst (pair_ix ! j))) \<or>
             constant_row (feats ! row_of (length feats) (snd (pair_ix ! j))) \<and>
             mean_is_exact N (feats ! row_of (length feats) (snd (pair_ix ! j)))) \<longrightarrow>
              r ! j = NaN)))"
proof -
  have nan: "corr_row N a b = NaN"
    if "zero_safe N"
      "constant_row a \<and> mean_is_exact N a \<or> constant_row b \<and> mean_is_exact N b"
    for a b
  proof -
    from that(2) show ?thesis
    proof
      assume "constant_row a \<and> mean_is_exact N a"
      then show ?thesis using that(1) by (simp add: corr_row_zero_centred)
    next
      assume "constant_row b \<and> mean_is_exact N b"
      then have "corr_row N b a = NaN" using that(1) by (simp add: corr_row_zero_centred)
      then show ?thesis by (simp add: corr_row_commute [of N a b])
    qed
  qed
  have p1: "same_shape x y \<longrightarrow> (\<exists>r. pairwise_corr N x y = Inr r \<and> length r = length x)"
    using pairwise_corr_rows [of x y N] same_shape_length [of x y] by simp
  have p2: "zero_safe N \<and> same_shape x y \<and> k < length x \<and>
    (constant_row (x ! k) \<and> mean_is_exact N (x ! k) \<or>
     constant_row (y ! k) \<and> mean_is_exact N (y ! k)) \<longrightarrow>
      (\<exists>r. pairwise_corr N x y = Inr r \<and> length r = length x \<and> r ! k = NaN)"
  proof
    assume h: "zero_safe N \<and> same_shape x y \<and> k < length x \<and>
      (constant_row (x ! k) \<and> mean_is_exact N (x ! k) \<or>
       constant_row (y ! k) \<and> mean_is_exact N (y ! k))"
    have len: "length x = length y" using h by (simp add: same_shape_length)
    have r: "pairwise_corr N x y = Inr (map2 (corr_row N) x y)"
      using h by (simp add: pairwise_corr_rows)
    have "map2 (corr_row N) x y ! k = corr_row N (x ! k) (y ! k)"
      using h len by simp
    also have "\<dots> = NaN" using h by (simp add: nan)
    finally show "\<exists>r. pairwise_corr N x y = Inr r \<and> length r = length x \<and> r ! k = NaN"
      using r len by simp
  qed
  have p3: "constant_row row \<longrightarrow> mean_is_exact exact row"
    by (simp add: constant_row_exact)
  have p4: "\<exists>r. pairwise_indexed feats pair_ix (pairwise_corr N) bs = Inr r \<and>
           length r = length pair_ix \<and>
           r ! j = corr_row N (feats ! row_of (length feats) (fst (pair_ix ! j)))
                              (feats ! row_of (length feats) (snd (pair_ix ! j))) \<and>
           (zero_safe N \<and>
            (constant_row (feats ! row_of (length feats) (fst (pair_ix ! j))) \<and>
             mean_is_exact N (feats ! row_of (length feats) (fst (pair_ix ! j))) \<or>
             constant_row (feats ! row_of (length feats) (snd (pair_ix ! j))) \<and>
             mean_is_exact N (feats ! row_of (length feats) (snd (pair_ix ! j)))) \<longrightarrow>
              r ! j = NaN)"
    if h: "rectangular feats \<and> 0 < bs \<and>
      list_all (valid_index (length feats)) (map fst pair_ix) \<and>
      list_all (valid_index (length feats)) (map snd pair_ix) \<and> j < length pair_ix"
  proof -
    have ne: "pair_ix \<noteq> []" using h by auto
    have rw: "rowwise_on feats (pairwise_corr N) (corr_row N)"
      using h by (simp add: rowwise_on_pairwise_corr)
    have "pairwise_indexed feats pair_ix (pairwise_corr N) bs =
        per_pair_scores feats (corr_row N) pair_ix"
      using rw _ ne by (rule pairwise_indexed_rowwise) (use h in simp)
    then show ?thesis
      using h nan by (simp add: per_pair_scores_eq)
  qed
  show ?thesis using p1 p2 p3 p4 zero_safe_exact zero_safe_float64 by blast
qed

theorem pairwise_corr_zero_variance_witness:
  "zero_safe float64 \<and> same_shape [[Fin 2, Fin 2]] [[Fin 1, Fin 3]] \<and>
   constant_row [Fin 2, Fin 2] \<and> mean_is_exact float64 [Fin 2, Fin 2] \<and>
   (\<exists>r. pairwise_corr float64 [[Fin 2, Fin 2]] [[Fin 1, Fin 3]] = Inr r \<and>
        length r = 1 \<and> r ! 0 = NaN) \<and>
   (\<exists>r. pairwise_indexed [[Fin 2, Fin 2], [Fin 1, Fin 3]] [(1, 0)]
          (pairwise_corr float64) 1 = Inr r \<and> length r = 1 \<and> r ! 0 = NaN)"
proof -
  let ?x = "[[Fin 2, Fin 2]]" and ?y = "[[Fin 1, Fin 3]]"
  let ?feats = "[[Fin 2, Fin 2], [Fin 1, Fin 3]]" and ?pairs = "[(1, 0 :: int)]"
  note w = pairwise_corr_zero_variance [of ?x ?y float64 0 "[]" ?feats 1 ?pairs 0]
  have zs: "zero_safe float64" by (rule zero_safe_float64)
  have sh: "same_shape ?x ?y" by (simp add: same_shape_def)
  have c: "constant_row [Fin 2, Fin 2]" by simp
  have m: "mean_is_exact float64 [Fin 2, Fin 2]" by (simp add: mean_two)
  have a: "\<exists>r. pairwise_corr float64 ?x ?y = Inr r \<and> length r = 1 \<and> r ! 0 = NaN"
    using w [THEN conjunct2, THEN conjunct1] zs sh c m by simp
  have b: "\<exists>r. pairwise_indexed ?feats ?pairs (pairwise_corr float64) 1 = Inr r \<and>
      length r = 1 \<and> r ! 0 = NaN"
    using w [THEN conjunct2, THEN conjunct2, THEN conjunct2, THEN conjunct2, THEN conjunct2]
      zs c m
    by (auto simp: valid_index_def row_of_def)
  show ?thesis using zs sh c m a b by blast
qed

section \<open>Properties of the sampler\<close>

lemma set_map_filter: "set (List.map_filter f xs) = {y. \<exists>x \<in> set xs. f x = Some y}"
  by (induction xs) (auto simp: map_filter_simps split: option.splits)

lemma set_column_values: "set (column_values ds col) = {v. \<exists>i < length ds. (ds ! i) col = Some v}"
  by (force simp: column_values_def set_map_filter in_set_conv_nth)

lemma set_bucket: "set (bucket ds col v) = {i. i < length ds \<and> (ds ! i) col = Some v}"
proof (cases "v \<in> set (column_values ds col)")
  case True
  then have "map_of (column_index ds col) v =
      Some (filter (\<lambda>i. (ds ! i) col = Some v) [0..<length ds])"
    by (simp add: column_index_def map_of_map_restrict restrict_map_def)
  then show ?thesis by (auto simp: bucket_def)
next
  case False
  then have "map_of (column_index ds col) v = None"
    by (simp add: column_index_def map_of_map_restrict restrict_map_def)
  moreover have "{i. i < length ds \<and> (ds ! i) col = Some v} = {}"
    using False by (auto simp: set_column_values)
  ultimately show ?thesis by (simp add: bucket_def)
qed

lemma set_all_pairs: "set (all_pairs rows) = {(i, j). i \<in> set rows \<and> j \<in> set rows \<and> i < j}"
  by (auto simp: all_pairs_def)


lemma set_same_value_pairs:
  assumes "set rows \<subseteq> {..<length ds}"
  shows "set (same_value_pairs ds col rows) =
     {(i, j). i \<in> set rows \<and> j \<in> set rows \<and> i < j \<and> pd_eq ((ds ! i) col) ((ds ! j) col)}"
proof -
  have "(i, j) \<in> set (same_value_pairs ds col rows) \<longleftrightarrow>
      i \<in> set rows \<and> j \<in> set rows \<and> i < j \<and> pd_eq ((ds ! i) col) ((ds ! j) col)" for i j
  proof
    assume "(i, j) \<in> set (same_value_pairs ds col rows)"
    then obtain v where
      "(i, j) \<in> set (all_pairs (filter (\<lambda>i. i \<in> set (bucket ds col v)) rows))"
      by (auto simp: same_value_pairs_def)
    then show "i \<in> set rows \<and> j \<in> set rows \<and> i < j \<and> pd_eq ((ds ! i) col) ((ds ! j) col)"
      by (simp add: set_all_pairs set_bucket pd_eq_def)
  next
    assume h: "i \<in> set rows \<and> j \<in> set rows \<and> i < j \<and> pd_eq ((ds ! i) col) ((ds ! j) col)"
    then obtain v where v: "(ds ! i) col = Some v" "(ds ! j) col = Some v"
      by (auto simp: pd_eq_def split: option.splits)
    have lt: "i < length ds" "j < length ds" using h assms by auto
    then have "v \<in> set (column_values ds col)"
      using v by (auto simp: set_column_values)
    moreover have "(i, j) \<in> set (all_pairs (filter (\<lambda>i. i \<in> set (bucket ds col v)) rows))"
      using h v lt by (simp add: set_all_pairs set_bucket)
    ultimately show "(i, j) \<in> set (same_value_pairs ds col rows)"
      by (auto simp: same_value_pairs_def)
  qed
  then show ?thesis by auto
qed

lemma set_valid_pairs:
  assumes "set rows \<subseteq> {..<length ds}"
  shows "set (valid_pairs ds diffby rows) =
     {(i, j). i \<in> set rows \<and> j \<in> set rows \<and> i < j \<and> (\<forall>col \<in> set diffby. \<not> pd_eq ((ds ! i) col) ((ds ! j) col))}"
proof -
  have "set (concat (map (\<lambda>col. same_value_pairs ds col rows) diffby)) =
      {(i, j). i \<in> set rows \<and> j \<in> set rows \<and> i < j \<and> (\<exists>col \<in> set diffby. pd_eq ((ds ! i) col) ((ds ! j) col))}"
    by (auto simp: set_same_value_pairs [OF assms])
  then show ?thesis
    unfolding valid_pairs_def set_filter set_all_pairs by blast
qed


lemma key_of_length: "key_of r cs = Some k \<Longrightarrow> length k = length cs"
  by (induction cs arbitrary: k) (auto split: option.splits)

lemma key_of_Cons_Some:
  "key_of r (c # cs) = Some k \<longleftrightarrow> (\<exists>v k'. r c = Some v \<and> key_of r cs = Some k' \<and> k = v # k')"
  by (auto split: option.splits)

lemma set_group_rows:
  "length k = length cs \<Longrightarrow>
   set (group_rows ds cs k) = {i. i < length ds \<and> key_of (ds ! i) cs = Some k}"
proof (induction cs arbitrary: k)
  case Nil
  then show ?case by auto
next
  case (Cons c cs)
  then obtain v vs where k: "k = v # vs" and len: "length vs = length cs"
    by (cases k) auto
  have "set (group_rows ds cs vs) = {i. i < length ds \<and> key_of (ds ! i) cs = Some vs}"
    using len by (rule Cons.IH)
  then show ?case
    unfolding k by (auto simp: set_bucket key_of_Cons_Some simp del: key_of.simps)
qed

lemma set_group_keys:
  "set (group_keys ds cs) = {k. \<exists>i < length ds. key_of (ds ! i) cs = Some k}"
  by (force simp: group_keys_def set_map_filter in_set_conv_nth)

lemma key_of_eq_iff:
  "(\<exists>k. key_of r cs = Some k \<and> key_of r' cs = Some k) \<longleftrightarrow> (\<forall>c \<in> set cs. pd_eq (r c) (r' c))"
proof (induction cs)
  case Nil
  show ?case by simp
next
  case (Cons c cs)
  have "(\<exists>k. key_of r (c # cs) = Some k \<and> key_of r' (c # cs) = Some k) \<longleftrightarrow>
      (\<exists>v. r c = Some v \<and> r' c = Some v) \<and> (\<exists>k'. key_of r cs = Some k' \<and> key_of r' cs = Some k')"
    unfolding key_of_Cons_Some by blast
  also have "(\<exists>v. r c = Some v \<and> r' c = Some v) \<longleftrightarrow> pd_eq (r c) (r' c)"
    by (auto simp: pd_eq_def split: option.splits)
  finally show ?case using Cons.IH by simp
qed

lemma set_flatten_nonempty:
  "set (flatten (filter (\<lambda>kp. snd kp \<noteq> []) (map (\<lambda>k. (k, F k)) ks))) = (\<Union>k \<in> set ks. set (F k))"
  by (auto simp: flatten_def)

lemma group_rows_bound: "set (group_rows ds cs k) \<subseteq> {..<length ds}"
  by (induction ds cs k rule: group_rows.induct) auto

lemma get_all_pairs_set:
  assumes "set groupby \<inter> set diffby = {}" and ds: "dframe s = ds"
  shows "\<exists>vals. get_all_pairs s groupby diffby = Inr vals \<and>
     set (flatten vals) =
       {(i, j). i < j \<and> j < length ds \<and> agree ds groupby i j \<and> differ ds diffby i j}"
proof -
  let ?F = "\<lambda>k. valid_pairs ds diffby (group_rows ds groupby k)"
  let ?vals = "filter (\<lambda>kp. snd kp \<noteq> []) (map (\<lambda>k. (k, ?F k)) (group_keys ds groupby))"
  have g: "get_all_pairs s groupby diffby = Inr ?vals"
    using assms by (simp add: get_all_pairs_def)
  have F: "set (?F k) = {(i, j). i < j \<and> j < length ds \<and>
      key_of (ds ! i) groupby = Some k \<and> key_of (ds ! j) groupby = Some k \<and>
      differ ds diffby i j}" if "k \<in> set (group_keys ds groupby)" for k
  proof -
    have "length k = length groupby"
      using that by (auto simp: set_group_keys dest: key_of_length)
    then have rows: "set (group_rows ds groupby k) =
        {i. i < length ds \<and> key_of (ds ! i) groupby = Some k}"
      by (rule set_group_rows)
    show ?thesis
      unfolding set_valid_pairs [OF group_rows_bound] rows
      by (auto simp: differ_def pd_ne_def list_all_iff)
  qed
  have "set (flatten ?vals) = (\<Union>k \<in> set (group_keys ds groupby). set (?F k))"
    by (rule set_flatten_nonempty)
  also have "\<dots> = {(i, j). i < j \<and> j < length ds \<and>
      (\<exists>k. key_of (ds ! i) groupby = Some k \<and> key_of (ds ! j) groupby = Some k) \<and>
      differ ds diffby i j}"
    using F by (auto simp: set_group_keys)
  also have "\<dots> = {(i, j). i < j \<and> j < length ds \<and> agree ds groupby i j \<and> differ ds diffby i j}"
    unfolding key_of_eq_iff agree_def list_all_iff ..
  finally show ?thesis using g by blast
qed

lemma naive_index_eq:
  "naive_index ds groupby diffby p \<longleftrightarrow>
     agree ds groupby (fst p) (snd p) \<and> differ ds diffby (fst p) (snd p)"
proof -
  have a: "foldl (\<lambda>index col. P col \<and> index) b cols \<longleftrightarrow> list_all P cols \<and> b" for P b and cols :: "string list"
    by (induction cols arbitrary: b) auto
  show ?thesis
    unfolding naive_index_def agree_def differ_def a by auto
qed


lemma rng_choice_mem: "xs \<noteq> [] \<Longrightarrow> fst (rng_choice g xs) \<in> set xs"
  by (simp add: rng_choice_def)

lemma pick_two_distinct:
  assumes "distinct vals" "2 \<le> length vals" "pick_two g vals = ((a, b), g')"
  shows "a \<noteq> b"
proof -
  have a: "a = fst (rng_choice g vals)"
    using assms(3) by (auto simp: pick_two_def Let_def split: prod.splits)
  have b: "b = fst (rng_choice (snd (rng_choice g vals)) (removeAll a vals))"
    using assms(3) by (auto simp: pick_two_def Let_def split: prod.splits)
  have "vals \<noteq> []" using assms(2) by auto
  then have "a \<in> set vals" unfolding a by (rule rng_choice_mem)
  have "length (removeAll a vals) = length vals - 1"
    using assms(1) \<open>a \<in> set vals\<close>
    by (simp add: distinct_remove1_removeAll [symmetric] length_remove1)
  then have "removeAll a vals \<noteq> []" using assms(2) by auto
  then have "b \<in> set (removeAll a vals)" unfolding b by (rule rng_choice_mem)
  then show ?thesis by auto
qed

lemma pick_values_distinct:
  assumes "\<forall>c \<in> set cols. 2 \<le> length (column_values ds c)"
    and "pick_values ds g cols = (vs, g')"
  shows "length vs = length cols \<and> (\<forall>p \<in> set vs. fst p \<noteq> snd p)"
  using assms
proof (induction cols arbitrary: g vs g')
  case Nil
  then show ?case by simp
next
  case (Cons c cs)
  obtain a b g1 where p: "pick_two g (column_values ds c) = ((a, b), g1)"
    by (metis prod.exhaust)
  obtain ps g2 where r: "pick_values ds g1 cs = (ps, g2)"
    by (metis prod.exhaust)
  have vs: "vs = (a, b) # ps" using Cons.prems(2) p r by simp
  have "a \<noteq> b"
    using pick_two_distinct [OF _ _ p] Cons.prems(1) by (simp add: column_values_def)
  moreover have "length ps = length cs \<and> (\<forall>p \<in> set ps. fst p \<noteq> snd p)"
    using Cons.IH [OF _ r] Cons.prems(1) by simp
  ultimately show ?case unfolding vs by simp
qed

lemma key_of_nth:
  "key_of r cs = Some k \<Longrightarrow> i < length cs \<Longrightarrow> r (cs ! i) = Some (k ! i)"
proof (induction cs arbitrary: k i)
  case Nil
  then show ?case by simp
next
  case (Cons c cs)
  then obtain v k' where k: "r c = Some v" "key_of r cs = Some k'" "k = v # k'"
    unfolding key_of_Cons_Some by blast
  show ?case
  proof (cases i)
    case 0
    then show ?thesis using k by simp
  next
    case (Suc m)
    then show ?thesis using Cons.IH [OF k(2), of m] Cons.prems(2) k by simp
  qed
qed

lemma draw_loop_pair:
  assumes "\<forall>c \<in> set cols. 2 \<le> length (column_values ds c)"
    and "draw_loop n ds cols g = (Inr (id1, id2), g')"
  shows "id1 \<noteq> id2 \<and> (\<exists>vs. length vs = length cols \<and> (\<forall>p \<in> set vs. fst p \<noteq> snd p) \<and>
           id1 \<in> set (group_rows ds cols (map fst vs)) \<and>
           id2 \<in> set (group_rows ds cols (map snd vs)))"
  using assms(2)
proof (induction n arbitrary: g)
  case 0
  then show ?case by simp
next
  case (Suc n)
  obtain vs g1 where pv: "pick_values ds g cols = (vs, g1)"
    by (metis prod.exhaust)
  have d: "length vs = length cols \<and> (\<forall>p \<in> set vs. fst p \<noteq> snd p)"
    using assms(1) pv by (rule pick_values_distinct)
  let ?pool1 = "group_rows ds cols (map fst vs)"
  let ?pool2 = "group_rows ds cols (map snd vs)"
  show ?case
  proof (cases "?pool1 = [] \<or> ?pool2 = []")
    case True
    then have "draw_loop n ds cols g1 = (Inr (id1, id2), g')"
      using Suc.prems pv by (simp add: Let_def)
    then show ?thesis by (rule Suc.IH)
  next
    case False
    obtain a g2 where c1: "rng_choice g1 ?pool1 = (a, g2)" by (metis prod.exhaust)
    obtain b g3 where c2: "rng_choice g2 ?pool2 = (b, g3)" by (metis prod.exhaust)
    have mem: "a \<in> set ?pool1" "b \<in> set ?pool2"
      using False rng_choice_mem [of ?pool1 g1] rng_choice_mem [of ?pool2 g2] c1 c2 by auto
    show ?thesis
    proof (cases "a = b")
      case True
      then have "draw_loop n ds cols g3 = (Inr (id1, id2), g')"
        using Suc.prems pv False c1 c2 by (simp add: Let_def)
      then show ?thesis by (rule Suc.IH)
    next
      case ne: False
      then have "id1 = a" "id2 = b"
        using Suc.prems pv False c1 c2 by (simp_all add: Let_def)
      then show ?thesis using ne d mem by blast
    qed
  qed
qed

lemma pd_eq_sym: "pd_eq a b \<longleftrightarrow> pd_eq b a"
  by (auto simp: pd_eq_def split: option.splits)

lemma agree_sym: "agree ds cols i j \<longleftrightarrow> agree ds cols j i"
  unfolding agree_def list_all_iff using pd_eq_sym by blast

lemma differ_sym: "differ ds cols i j \<longleftrightarrow> differ ds cols j i"
  unfolding differ_def list_all_iff pd_ne_def using pd_eq_sym by blast

lemma pair_set_ordered:
  assumes "set ps = {(i, j). i < j \<and> j < length ds \<and> agree ds g i j \<and> differ ds d i j}"
  shows "pair_set ps = matching ds g d"
proof
  show "pair_set ps \<subseteq> matching ds g d"
    unfolding pair_set_def matching_def assms by force
next
  show "matching ds g d \<subseteq> pair_set ps"
  proof
    fix x assume "x \<in> matching ds g d"
    then obtain i j where x: "x = {i, j}" "i < length ds" "j < length ds" "i \<noteq> j"
      "agree ds g i j" "differ ds d i j"
      unfolding matching_def by blast
    show "x \<in> pair_set ps"
    proof (cases "i < j")
      case True
      then have "(i, j) \<in> set ps" using x unfolding assms by simp
      then show ?thesis unfolding pair_set_def x(1) by force
    next
      case False
      then have "j < i" using x(4) by simp
      then have "(j, i) \<in> set ps"
        using x agree_sym [of ds g i j] differ_sym [of ds d i j] unfolding assms by simp
      then have "{j, i} \<in> pair_set ps" unfolding pair_set_def by force
      then show ?thesis unfolding x(1) by (simp add: insert_commute)
    qed
  qed
qed

lemma get_naive_pairs_set:
  assumes "groupby \<noteq> [] \<or> diffby \<noteq> []"
  shows "\<exists>gt. get_naive_pairs ds groupby diffby = Inr gt \<and>
     set gt = {(i, j). i < length ds \<and> j < length ds \<and>
                 agree ds groupby i j \<and> differ ds diffby i j}"
  using assms by (auto simp: get_naive_pairs_def naive_index_eq)

lemma pair_set_naive_no_self:
  assumes "set gt = {(i, j). i < length ds \<and> j < length ds \<and> agree ds g i j \<and> differ ds d i j}"
  shows "pair_set (filter (\<lambda>p. fst p \<noteq> snd p) gt) = matching ds g d"
proof
  show "pair_set (filter (\<lambda>p. fst p \<noteq> snd p) gt) \<subseteq> matching ds g d"
    unfolding pair_set_def matching_def set_filter assms by auto blast
next
  show "matching ds g d \<subseteq> pair_set (filter (\<lambda>p. fst p \<noteq> snd p) gt)"
  proof
    fix x assume "x \<in> matching ds g d"
    then obtain i j where x: "x = {i, j}" "i < length ds" "j < length ds" "i \<noteq> j"
      "agree ds g i j" "differ ds d i j"
      unfolding matching_def by blast
    then have "(i, j) \<in> set (filter (\<lambda>p. fst p \<noteq> snd p) gt)"
      unfolding set_filter assms by simp
    then show "x \<in> pair_set (filter (\<lambda>p. fst p \<noteq> snd p) gt)"
      unfolding pair_set_def x(1) by force
  qed
qed

lemma filter_no_self:
  assumes "set gt = {(i, j). i < length ds \<and> j < length ds \<and> agree ds g i j \<and> differ ds d i j}"
    and "\<forall>i < length ds. \<not> (agree ds g i i \<and> differ ds d i i)"
  shows "filter (\<lambda>p. fst p \<noteq> snd p) gt = gt"
proof -
  have "\<forall>p \<in> set gt. fst p \<noteq> snd p"
    unfolding assms(1) using assms(2) by auto
  then show ?thesis by simp
qed

lemma differ_self_present:
  assumes "differ ds diffby i i"
  shows "\<forall>c \<in> set diffby. (ds ! i) c = None"
  using assms by (auto simp: differ_def pd_ne_def pd_eq_def list_all_iff split: option.splits)



text \<open>
  C1, as stated, fails: with the groupby column \<open>c\<close> and no diffby column the cross
  product of \<open>get_naive_pairs\<close> keeps the pair of row 0 with itself, whose frozenset is
  \<open>{0}\<close>, while the enumerator returns pairs of distinct rows only; \<open>check_naive\<close>
  raises AssertionError.
\<close>

theorem get_all_pairs_naive_counterexample:
  "set [''c''] \<inter> set ([] :: string list) = {} \<and>
   get_all_pairs single_sampler [''c''] [] = Inr [] \<and>
   get_naive_pairs single_dframe [''c''] [] = Inr [(0, 0)] \<and>
   pair_set (flatten ([] :: (nat list \<times> (nat \<times> nat) list) list)) \<noteq> pair_set [(0, 0)] \<and>
   check_naive single_dframe single_sampler [''c''] [] = Inl AssertionError"
  by code_simp

text \<open>
  C1, amended: for every sampler over a dataset and all disjoint groupby and diffby,
  \<open>get_all_pairs\<close> returns a mapping whose flattened pair set is exactly the set of
  unordered pairs of distinct row ids that agree on every groupby column and differ on
  every diffby column; when at least one column is given, this is the pair set of
  \<open>get_naive_pairs\<close> without the pairs of a row with itself, and it is the whole naive
  pair set, \<open>check_naive\<close> passing, whenever no row both agrees with itself on groupby
  and differs from itself on diffby (as when diffby is not empty and has no missing cell).
\<close>

theorem get_all_pairs_refines_naive:
  assumes "set groupby \<inter> set diffby = {}" and "dframe s = ds"
  shows "\<exists>vals. get_all_pairs s groupby diffby = Inr vals \<and>
           pair_set (flatten vals) = matching ds groupby diffby \<and>
           (groupby \<noteq> [] \<or> diffby \<noteq> [] \<longrightarrow>
              (\<exists>gt. get_naive_pairs ds groupby diffby = Inr gt \<and>
                 pair_set (flatten vals) = pair_set (filter (\<lambda>p. fst p \<noteq> snd p) gt) \<and>
                 ((\<forall>i < length ds. \<not> (agree ds groupby i i \<and> differ ds diffby i i)) \<longrightarrow>
                    pair_set (flatten vals) = pair_set gt \<and>
                    check_naive ds s groupby diffby = Inr ())))"
proof -
  obtain vals where v: "get_all_pairs s groupby diffby = Inr vals"
    "set (flatten vals) =
       {(i, j). i < j \<and> j < length ds \<and> agree ds groupby i j \<and> differ ds diffby i j}"
    using get_all_pairs_set [OF assms] by blast
  have m: "pair_set (flatten vals) = matching ds groupby diffby"
    using v(2) by (rule pair_set_ordered)
  have n: "\<exists>gt. get_naive_pairs ds groupby diffby = Inr gt \<and>
      pair_set (flatten vals) = pair_set (filter (\<lambda>p. fst p \<noteq> snd p) gt) \<and>
      ((\<forall>i < length ds. \<not> (agree ds groupby i i \<and> differ ds diffby i i)) \<longrightarrow>
         pair_set (flatten vals) = pair_set gt \<and> check_naive ds s groupby diffby = Inr ())"
    if ne: "groupby \<noteq> [] \<or> diffby \<noteq> []"
  proof -
    obtain gt where gt: "get_naive_pairs ds groupby diffby = Inr gt"
      "set gt = {(i, j). i < length ds \<and> j < length ds \<and>
                 agree ds groupby i j \<and> differ ds diffby i j}"
      using get_naive_pairs_set [OF ne] by blast
    have a: "pair_set (flatten vals) = pair_set (filter (\<lambda>p. fst p \<noteq> snd p) gt)"
      using m pair_set_naive_no_self [OF gt(2)] by simp
    have b: "pair_set (flatten vals) = pair_set gt \<and> check_naive ds s groupby diffby = Inr ()"
      if ns: "\<forall>i < length ds. \<not> (agree ds groupby i i \<and> differ ds diffby i i)"
      using a filter_no_self [OF gt(2) ns] gt(1) v(1) by (simp add: check_naive_def)
    show ?thesis using gt(1) a b by blast
  qed
  show ?thesis using v(1) m n by blast
qed

lemma example_no_self:
  "\<forall>i < length example_dframe.
     \<not> (agree example_dframe [''c''] i i \<and> differ example_dframe [''p'', ''w''] i i)"
proof -
  have "list_all (\<lambda>r. r ''p'' \<noteq> None) example_dframe" by code_simp
  then have "\<forall>i < length example_dframe. (example_dframe ! i) ''p'' \<noteq> None"
    by (simp add: list_all_length)
  then show ?thesis by (auto simp: differ_def pd_ne_def pd_eq_def)
qed

theorem get_all_pairs_refines_naive_witness:
  "set [''c''] \<inter> set [''p'', ''w''] = {} \<and> dframe example_sampler = example_dframe \<and>
   get_all_pairs example_sampler [''c''] [''p'', ''w''] = Inr [([1], [(0, 1)])] \<and>
   get_naive_pairs example_dframe [''c''] [''p'', ''w''] = Inr [(0, 1), (1, 0)] \<and>
   pair_set (flatten [([1 :: nat], [(0, 1)])]) = matching example_dframe [''c''] [''p'', ''w''] \<and>
   pair_set (flatten [([1 :: nat], [(0, 1)])]) = pair_set [(0, 1), (1, 0)] \<and>
   check_naive example_dframe example_sampler [''c''] [''p'', ''w''] = Inr ()"
proof -
  have dj: "set [''c''] \<inter> set [''p'', ''w''] = {}" by simp
  have ds: "dframe example_sampler = example_dframe" by (simp add: example_sampler_def)
  have ev: "get_all_pairs example_sampler [''c''] [''p'', ''w''] = Inr [([1], [(0, 1)])]"
    by code_simp
  have nv: "get_naive_pairs example_dframe [''c''] [''p'', ''w''] = Inr [(0, 1), (1, 0)]"
    by code_simp
  from get_all_pairs_refines_naive [OF dj ds] ev nv example_no_self
  have "pair_set (flatten [([1 :: nat], [(0, 1)])]) =
          matching example_dframe [''c''] [''p'', ''w''] \<and>
        pair_set (flatten [([1 :: nat], [(0, 1)])]) = pair_set [(0, 1), (1, 0)] \<and>
        check_naive example_dframe example_sampler [''c''] [''p'', ''w''] = Inr ()"
    by auto
  then show ?thesis using dj ds ev nv by blast
qed

text \<open>
  C4: every pair \<open>(id1, id2)\<close> that \<open>sample_null_pair\<close> returns for the columns
  \<open>cols\<close> has two different row ids, both from the candidate pool of the rows with no
  missing value in any requested column, and in every requested column the two rows hold
  two values that are present and different.
\<close>

theorem sample_null_pair_differs:
  assumes "sample_null_pair s max_tries cols = (Inr (id1, id2), s')"
  shows "id1 \<noteq> id2 \<and> id1 \<in> set (candidate_pool (dframe s) cols) \<and>
         id2 \<in> set (candidate_pool (dframe s) cols) \<and>
         (\<forall>c \<in> set cols. \<exists>v w. (dframe s ! id1) c = Some v \<and> (dframe s ! id2) c = Some w \<and> v \<noteq> w)"
proof -
  let ?ds = "dframe s"
  have guard: "\<forall>c \<in> set cols. 2 \<le> length (column_values ?ds c)"
    using assms by (auto simp: sample_null_pair_def list_ex_iff split: if_splits)
  obtain g' where dl: "draw_loop max_tries ?ds cols (rng s) = (Inr (id1, id2), g')"
    using assms by (auto simp: sample_null_pair_def Let_def split: if_splits prod.splits)
  from draw_loop_pair [OF guard dl] obtain vs where
    ne: "id1 \<noteq> id2" and len: "length vs = length cols" and
    dv: "\<forall>p \<in> set vs. fst p \<noteq> snd p" and
    m1: "id1 \<in> set (group_rows ?ds cols (map fst vs))" and
    m2: "id2 \<in> set (group_rows ?ds cols (map snd vs))"
    by blast
  have k1: "id1 < length ?ds" "key_of (?ds ! id1) cols = Some (map fst vs)"
    using m1 set_group_rows [of "map fst vs" cols ?ds] len by auto
  have k2: "id2 < length ?ds" "key_of (?ds ! id2) cols = Some (map snd vs)"
    using m2 set_group_rows [of "map snd vs" cols ?ds] len by auto
  have cols: "\<exists>v w. (?ds ! id1) c = Some v \<and> (?ds ! id2) c = Some w \<and> v \<noteq> w"
    if c: "c \<in> set cols" for c
  proof -
    obtain i where i: "i < length cols" "cols ! i = c"
      using c by (auto simp: in_set_conv_nth)
    have "(?ds ! id1) c = Some (fst (vs ! i))"
      using key_of_nth [OF k1(2) i(1)] i len by simp
    moreover have "(?ds ! id2) c = Some (snd (vs ! i))"
      using key_of_nth [OF k2(2) i(1)] i len by simp
    moreover have "fst (vs ! i) \<noteq> snd (vs ! i)"
      using dv i(1) len by simp
    ultimately show ?thesis by blast
  qed
  then have "id1 \<in> set (candidate_pool ?ds cols)" "id2 \<in> set (candidate_pool ?ds cols)"
    using k1(1) k2(1) by (auto simp: candidate_pool_def list_all_iff)
  then show ?thesis using ne cols by blast
qed


theorem sample_null_pair_differs_witness:
  "sample_null_pair example_sampler 5 [''p'', ''w''] =
     (Inr (1, 3), snd (sample_null_pair example_sampler 5 [''p'', ''w''])) \<and>
   (1 :: nat) \<noteq> 3 \<and>
   1 \<in> set (candidate_pool example_dframe [''p'', ''w'']) \<and>
   3 \<in> set (candidate_pool example_dframe [''p'', ''w'']) \<and>
   (\<exists>v w. (example_dframe ! 1) ''p'' = Some v \<and> (example_dframe ! 3) ''p'' = Some w \<and> v \<noteq> w) \<and>
   (\<exists>v w. (example_dframe ! 1) ''w'' = Some v \<and> (example_dframe ! 3) ''w'' = Some w \<and> v \<noteq> w)"
proof -
  have "fst (sample_null_pair example_sampler 5 [''p'', ''w'']) = Inr (1, 3)"
    by code_simp
  then have eq: "sample_null_pair example_sampler 5 [''p'', ''w''] =
      (Inr (1, 3), snd (sample_null_pair example_sampler 5 [''p'', ''w'']))"
    by (metis prod.collapse)
  have ds: "dframe example_sampler = example_dframe" by (simp add: example_sampler_def)
  show ?thesis using eq sample_null_pair_differs [OF eq] unfolding ds by simp
qed

end
